theory Spec2Isabelle
  imports Main "HOL-Library.Word"
begin

section \<open>Machine integers and constants\<close>

type_synonym uint8_t = "8 word"
type_synonym uint16_t = "16 word"
type_synonym int32_t = "32 word"

definition UINT8_MAX :: int where
  "UINT8_MAX = 255"

definition UINT16_MAX :: int where
  "UINT16_MAX = 65535"

section \<open>RestApi: the local conversion helpers\<close>

text \<open>
  \<^verbatim>\<open>toUInt8\<close> and \<^verbatim>\<open>toUInt16\<close> of the REST API. \<^verbatim>\<open>String::toInt\<close> belongs to the
  Arduino core and is a parameter \<open>toInt\<close>; its result is an \<^verbatim>\<open>int32_t\<close>, read as two's
  complement by \<open>sint\<close>. The reference parameter \<^verbatim>\<open>value\<close> is passed in and returned next to
  the result. \<^verbatim>\<open>static_cast\<close> to the narrower unsigned type truncates (\<open>ucast\<close>).
\<close>

definition toUInt8 :: "(string \<Rightarrow> int32_t) \<Rightarrow> string \<Rightarrow> uint8_t \<Rightarrow> bool \<times> uint8_t" where
  "toUInt8 toInt str val =
     (let success = False;
          tmp = toInt str;
          val' = (if 0 \<le> sint tmp \<or> UINT8_MAX \<ge> sint tmp then ucast tmp else val)
      in (success, val'))"

definition toUInt16 :: "(string \<Rightarrow> int32_t) \<Rightarrow> string \<Rightarrow> uint16_t \<Rightarrow> bool \<times> uint16_t" where
  "toUInt16 toInt str val =
     (let success = False;
          tmp = toInt str;
          val' = (if 0 \<le> sint tmp \<or> UINT16_MAX \<ge> sint tmp then ucast tmp else val)
      in (success, val'))"

section \<open>System state Init\<close>

text \<open>The states that \<^verbatim>\<open>InitState.cpp\<close> names, each a singleton.\<close>

datatype SysState = InitState | APState | ConnectingState

text \<open>
  Modelled from the spec: the mode-select input (ButtonDrv.h is missing). It tells whether
  a fresh reading is available and what the reading is. Of the button states only
  \<^verbatim>\<open>STATE_PRESSED\<close> is named by \<^verbatim>\<open>InitState.cpp\<close>; the other two constructors stand for
  every other value of the enumeration.
\<close>

datatype ButtonState = STATE_UNKNOWN | STATE_RELEASED | STATE_PRESSED

record ButtonDrv =
  isUpdated :: bool
  getState :: ButtonState

text \<open>
  Modelled from the spec: the state machine context (StateMachine.h is missing), holding
  the active state and the transition requested during the current tick, if any.
\<close>

record StateMachine =
  m_currentState :: SysState
  m_nextState :: "SysState option"

text \<open>
  Modelled from the spec: \<^verbatim>\<open>StateMachine::setState\<close> (StateMachine.h/.cpp are missing).
  A transition requested during \<^verbatim>\<open>process()\<close> is recorded and takes effect only after
  \<^verbatim>\<open>process()\<close> has returned; the active state is not touched by the request.
\<close>

definition setState :: "StateMachine \<Rightarrow> SysState \<Rightarrow> StateMachine" where
  "setState sm st = sm\<lparr>m_nextState := Some st\<rparr>"

definition InitState_process :: "ButtonDrv \<Rightarrow> StateMachine \<Rightarrow> StateMachine" where
  "InitState_process btn sm =
     (if isUpdated btn = True then
        (if STATE_PRESSED = getState btn then setState sm APState
         else setState sm ConnectingState)
      else sm)"

section \<open>Plugin manager: data\<close>

text \<open>
  A registry entry pairs a plugin name with its create function. Function pointers are
  compared and stored only, so a create function is named by a number.
\<close>

record PluginRegEntry =
  name :: string
  createFunc :: nat

text \<open>
  Modelled from the spec: a plugin object (IPluginMaintenance.hpp is missing), as a pointer
  \<^verbatim>\<open>IPluginMaintenance*\<close> sees it: its address, the create function that built it, and
  what \<^verbatim>\<open>getName()\<close> and \<^verbatim>\<open>getUID()\<close> return. The plugin
  manager only ever reads name and uid, which are fixed at construction, so they travel
  with the pointer. A nullable pointer is a \<open>Plugin option\<close>, \<open>None\<close> for \<^verbatim>\<open>nullptr\<close>.
  Addresses are handed out by a counter and never reused, so two pointers are equal
  exactly when the values are.
\<close>

record Plugin =
  addr :: nat
  madeBy :: nat
  getName :: string
  getUID :: uint16_t

text \<open>One element of the JSON array \<^verbatim>\<open>slots\<close>, read through \<^verbatim>\<open>["name"]\<close> and \<^verbatim>\<open>["uid"]\<close>.\<close>

record JsonSlot =
  slot_name :: string
  slot_uid :: uint16_t

text \<open>
  Modelled from the spec: the linked list with a single cursor (LinkedList.hpp is
  missing). The elements in order, and the index of the selected element.
\<close>

record 'a LinkedList =
  elems :: "'a list"
  curr :: nat

datatype LogLevel = LOGLEVEL_ERROR | LOGLEVEL_WARNING | LOGLEVEL_INFO

text \<open>The log lines of the plugin manager, one constructor per format string.\<close>

datatype LogMsg =
    CouldntAddToRegistry string
  | PluginRegistered string
  | PluginNotFoundInList Plugin
  | CouldntOpenFilesystem
  | MaxJsonBufferSizeReached
  | JsonDeserializationFailed
  | CouldntInstallInSlot string uint16_t uint8_t
  | CouldntInstallPlugin string
  | CouldntInstallPluginToSlot string uint8_t
  | CouldntAppendPlugin string

text \<open>
  ArduinoJson is a third-party library and a parameter of \<^verbatim>\<open>load\<close> and \<^verbatim>\<open>save\<close>:
  \<open>deserializeJson\<close> gives the elements of the array \<^verbatim>\<open>slots\<close> (\<open>None\<close> for a
  \<^verbatim>\<open>DeserializationError\<close> other than \<^verbatim>\<open>Ok\<close>), \<open>serializeJson\<close> the stored text of a
  document, and the two \<open>memoryUsage\<close> functions what \<^verbatim>\<open>jsonDoc.memoryUsage()\<close> reports
  after parsing and after building. The stored value has an arbitrary type \<open>'v\<close>.
\<close>

record 'v JsonLib =
  deserializeJson :: "'v \<Rightarrow> JsonSlot list option"
  serializeJson :: "JsonSlot list \<Rightarrow> 'v"
  memoryUsageParsed :: "'v \<Rightarrow> nat"
  memoryUsageBuilt :: "JsonSlot list \<Rightarrow> nat"

text \<open>
  Everything the plugin manager reads or writes: its own two lists, the slot table of the
  display manager, the web interfaces registered at the web server, the plugin objects
  alive on the heap and the enabled ones, the settings store, and the log. Three fields
  drive what the environment decides: \<open>newOk\<close> holds the outcomes of the coming
  allocations (an exhausted list means success), \<open>randomDraws\<close> the values the coming
  calls of \<^verbatim>\<open>random(UINT16_MAX)\<close> return, and \<open>fsOk\<close> whether the settings can be opened.
\<close>

record 'v world =
  m_registry :: "PluginRegEntry LinkedList"
  m_plugins :: "Plugin LinkedList"
  m_slots :: "Plugin option list"
  webInterfaces :: "(Plugin \<times> string) list"
  heap :: "Plugin list"
  enabled :: "Plugin list"
  nextAddr :: nat
  newOk :: "bool list"
  randomDraws :: "uint16_t list"
  fsOk :: bool
  settings_isOpen :: bool
  settings_opens :: nat
  settings_closes :: nat
  pluginInstallation :: 'v
  logs :: "(LogLevel \<times> LogMsg) list"

text \<open>
  Modelled from the spec: the reserved slot id of DisplayMgr.h (missing), which means
  "choose a slot" when passed in and "no slot" when returned. It is taken as the largest
  \<^verbatim>\<open>uint8_t\<close>, outside every slot table.
\<close>

definition SLOT_ID_INVALID :: uint8_t where
  "SLOT_ID_INVALID = 255"

definition JSON_DOC_SIZE :: nat where
  "JSON_DOC_SIZE = 512"

definition LOG :: "LogLevel \<Rightarrow> LogMsg \<Rightarrow> 'v world \<Rightarrow> 'v world" where
  "LOG lvl msg s = s\<lparr>logs := logs s @ [(lvl, msg)]\<rparr>"

text \<open>An allocation takes the next recorded outcome.\<close>

definition operator_new :: "'v world \<Rightarrow> bool \<times> 'v world" where
  "operator_new s =
     (case newOk s of
        [] \<Rightarrow> (True, s)
      | ok # rest \<Rightarrow> (ok, s\<lparr>newOk := rest\<rparr>))"

text \<open>\<^verbatim>\<open>delete plugin\<close>: the object is no longer alive; deleting \<^verbatim>\<open>nullptr\<close> does nothing.\<close>

definition operator_delete :: "Plugin option \<Rightarrow> 'v world \<Rightarrow> 'v world" where
  "operator_delete plugin s =
     (case plugin of
        None \<Rightarrow> s
      | Some p \<Rightarrow> s\<lparr>heap := removeAll p (heap s)\<rparr>)"

subsection \<open>LinkedList\<close>

text \<open>
  Modelled from the spec: \<^verbatim>\<open>LinkedList::selectFirstElement\<close> (LinkedList.hpp is missing).
  It restarts the iteration at the first element and fails on an empty list.
\<close>

definition LinkedList_selectFirstElement :: "'a LinkedList \<Rightarrow> bool \<times> 'a LinkedList" where
  "LinkedList_selectFirstElement l =
     (if elems l = [] then (False, l) else (True, l\<lparr>curr := 0\<rparr>))"

text \<open>
  Modelled from the spec: \<^verbatim>\<open>LinkedList::next\<close> (LinkedList.hpp is missing). Forward only;
  at the last element it fails and the cursor stays.
\<close>

definition LinkedList_next :: "'a LinkedList \<Rightarrow> bool \<times> 'a LinkedList" where
  "LinkedList_next l =
     (if Suc (curr l) < length (elems l) then (True, l\<lparr>curr := Suc (curr l)\<rparr>)
      else (False, l))"

text \<open>
  Modelled from the spec: \<^verbatim>\<open>LinkedList::current\<close> (LinkedList.hpp is missing), the selected
  element, or \<open>None\<close> when nothing is selected.
\<close>

definition LinkedList_current :: "'a LinkedList \<Rightarrow> 'a option" where
  "LinkedList_current l =
     (if curr l < length (elems l) then Some (elems l ! curr l) else None)"

text \<open>
  Modelled from the spec: \<^verbatim>\<open>LinkedList::append\<close> (LinkedList.hpp is missing). The element
  goes to the end, keeping the order of insertion; it fails, changing nothing, when the
  list node cannot be allocated (\<open>nodeOk\<close> is the outcome of that allocation).
\<close>

definition LinkedList_append :: "bool \<Rightarrow> 'a LinkedList \<Rightarrow> 'a \<Rightarrow> bool \<times> 'a LinkedList" where
  "LinkedList_append nodeOk l x =
     (if nodeOk then
        (True, l\<lparr>elems := elems l @ [x], curr := (if elems l = [] then 0 else curr l)\<rparr>)
      else (False, l))"

fun indexOf :: "'a \<Rightarrow> 'a list \<Rightarrow> nat option" where
  "indexOf x [] = None"
| "indexOf x (y # ys) = (if x = y then Some 0 else map_option Suc (indexOf x ys))"

text \<open>
  Modelled from the spec: \<^verbatim>\<open>LinkedList::find\<close> (LinkedList.hpp is missing). It selects the
  first element equal to the one looked for; when there is none the cursor is left alone.
\<close>

definition LinkedList_find :: "'a LinkedList \<Rightarrow> 'a \<Rightarrow> bool \<times> 'a LinkedList" where
  "LinkedList_find l x =
     (case indexOf x (elems l) of
        None \<Rightarrow> (False, l)
      | Some i \<Rightarrow> (True, l\<lparr>curr := i\<rparr>))"

definition removeAt :: "nat \<Rightarrow> 'a list \<Rightarrow> 'a list" where
  "removeAt i xs = take i xs @ drop (Suc i) xs"

text \<open>
  Modelled from the spec: \<^verbatim>\<open>LinkedList::removeSelected\<close> (LinkedList.hpp is missing). The
  selected element leaves the list; the cursor then selects its successor, or its
  predecessor when it was the last one.
\<close>

definition LinkedList_removeSelected :: "'a LinkedList \<Rightarrow> 'a LinkedList" where
  "LinkedList_removeSelected l =
     (if curr l < length (elems l) then
        l\<lparr>elems := removeAt (curr l) (elems l),
          curr := (if Suc (curr l) < length (elems l) then curr l else curr l - 1)\<rparr>
      else l)"

subsection \<open>DisplayMgr\<close>

fun firstFree :: "'a option list \<Rightarrow> nat option" where
  "firstFree [] = None"
| "firstFree (x # xs) =
     (case x of None \<Rightarrow> Some 0 | Some y \<Rightarrow> map_option Suc (firstFree xs))"

text \<open>
  Modelled from the spec: \<^verbatim>\<open>DisplayMgr::installPlugin(plugin)\<close> (DisplayMgr is missing).
  The plugin goes to the free slot of lowest index, whose id is returned; with no free
  slot the table is unchanged and the invalid id is returned.
\<close>

definition DisplayMgr_installPlugin_auto ::
  "Plugin \<Rightarrow> Plugin option list \<Rightarrow> uint8_t \<times> Plugin option list" where
  "DisplayMgr_installPlugin_auto p slots =
     (case firstFree slots of
        None \<Rightarrow> (SLOT_ID_INVALID, slots)
      | Some i \<Rightarrow> (of_nat i, slots[i := Some p]))"

text \<open>
  Modelled from the spec: \<^verbatim>\<open>DisplayMgr::installPlugin(plugin, slotId)\<close> (DisplayMgr is
  missing). It fails, with the invalid id, when the slot is out of range or occupied;
  otherwise the plugin occupies exactly that slot.
\<close>

definition DisplayMgr_installPlugin ::
  "Plugin \<Rightarrow> uint8_t \<Rightarrow> Plugin option list \<Rightarrow> uint8_t \<times> Plugin option list" where
  "DisplayMgr_installPlugin p slotId slots =
     (if unat slotId < length slots \<and> slots ! unat slotId = None then
        (slotId, slots[unat slotId := Some p])
      else (SLOT_ID_INVALID, slots))"

text \<open>
  Modelled from the spec: \<^verbatim>\<open>DisplayMgr::uninstallPlugin(plugin)\<close> (DisplayMgr is missing).
  The slot that holds the plugin is released; it refuses when no slot holds it.
\<close>

definition DisplayMgr_uninstallPlugin ::
  "Plugin \<Rightarrow> Plugin option list \<Rightarrow> bool \<times> Plugin option list" where
  "DisplayMgr_uninstallPlugin p slots =
     (case indexOf (Some p) slots of
        None \<Rightarrow> (False, slots)
      | Some i \<Rightarrow> (True, slots[i := None]))"

text \<open>
  Modelled from the spec: \<^verbatim>\<open>DisplayMgr::getPluginInSlot(slotId)\<close> (DisplayMgr is missing):
  the plugin in the slot, or none.
\<close>

definition getPluginInSlot :: "uint8_t \<Rightarrow> Plugin option list \<Rightarrow> Plugin option" where
  "getPluginInSlot slotId slots =
     (if unat slotId < length slots then slots ! unat slotId else None)"

subsection \<open>Plugin objects, web server, settings\<close>

text \<open>
  Modelled from the spec: a registered create function (the plugins are missing). It
  allocates a plugin carrying the given name and uid, or returns \<^verbatim>\<open>nullptr\<close> when the
  allocation fails.
\<close>

definition createPlugin ::
  "nat \<Rightarrow> string \<Rightarrow> uint16_t \<Rightarrow> 'v world \<Rightarrow> Plugin option \<times> 'v world" where
  "createPlugin cf nm uid s =
     (case operator_new s of
        (False, s1) \<Rightarrow> (None, s1)
      | (True, s1) \<Rightarrow>
          (let p = \<lparr>addr = nextAddr s1, madeBy = cf, getName = nm, getUID = uid\<rparr>
           in (Some p, s1\<lparr>heap := heap s1 @ [p], nextAddr := Suc (nextAddr s1)\<rparr>)))"

text \<open>Modelled from the spec: \<^verbatim>\<open>IPluginMaintenance::enable\<close> (the interface is missing).\<close>

definition enable :: "Plugin \<Rightarrow> 'v world \<Rightarrow> 'v world" where
  "enable p s = s\<lparr>enabled := enabled s @ [p]\<rparr>"

text \<open>
  Modelled from the spec: \<^verbatim>\<open>IPluginMaintenance::registerWebInterface\<close> (the interface is
  missing): the web server knows the plugin under the base URI.
\<close>

definition registerWebInterface :: "Plugin \<Rightarrow> string \<Rightarrow> 'v world \<Rightarrow> 'v world" where
  "registerWebInterface p baseUri s = s\<lparr>webInterfaces := webInterfaces s @ [(p, baseUri)]\<rparr>"

text \<open>
  Modelled from the spec: \<^verbatim>\<open>IPluginMaintenance::unregisterWebInterface\<close> (the interface is
  missing): the web server forgets the plugin.
\<close>

definition unregisterWebInterface :: "Plugin \<Rightarrow> 'v world \<Rightarrow> 'v world" where
  "unregisterWebInterface p s =
     s\<lparr>webInterfaces := filter (\<lambda>(q, uri). q \<noteq> p) (webInterfaces s)\<rparr>"

text \<open>
  Modelled from the spec: \<^verbatim>\<open>Settings::open(readOnly)\<close> (Settings is missing). Opening
  succeeds when the file system allows it; the opens and closes are counted.
\<close>

definition Settings_open :: "bool \<Rightarrow> 'v world \<Rightarrow> bool \<times> 'v world" where
  "Settings_open readOnly s =
     (if fsOk s then
        (True, s\<lparr>settings_isOpen := True, settings_opens := Suc (settings_opens s)\<rparr>)
      else (False, s))"

text \<open>Modelled from the spec: \<^verbatim>\<open>Settings::close()\<close> (Settings is missing).\<close>

definition Settings_close :: "'v world \<Rightarrow> 'v world" where
  "Settings_close s = s\<lparr>settings_isOpen := False, settings_closes := Suc (settings_closes s)\<rparr>"

text \<open>The decimal digits that \<^verbatim>\<open>String::operator+=\<close> appends for an unsigned number.\<close>

fun decimal :: "nat \<Rightarrow> string" where
  "decimal n =
     (if n < 10 then [char_of (48 + n)]
      else decimal (n div 10) @ [char_of (48 + n mod 10)])"

declare decimal.simps [simp del]

section \<open>PluginMgr\<close>

text \<open>
  \<^verbatim>\<open>PluginMgr::registerPlugin\<close>. The entry is allocated, filled and appended to the registry;
  when the entry or its list node cannot be allocated an error is logged. It returns
  nothing. No name is compared.
\<close>

definition registerPlugin :: "string \<Rightarrow> nat \<Rightarrow> 'v world \<Rightarrow> 'v world" where
  "registerPlugin nm cf s =
     (case operator_new s of
        (True, s1) \<Rightarrow>
          (let entry = \<lparr>name = nm, createFunc = cf\<rparr>
           in case operator_new s1 of
                (nodeOk, s2) \<Rightarrow>
                  (case LinkedList_append nodeOk (m_registry s2) entry of
                     (False, reg) \<Rightarrow>
                       LOG LOGLEVEL_ERROR (CouldntAddToRegistry nm) (s2\<lparr>m_registry := reg\<rparr>)
                   | (True, reg) \<Rightarrow>
                       LOG LOGLEVEL_INFO (PluginRegistered nm) (s2\<lparr>m_registry := reg\<rparr>)))
      | (False, s1) \<Rightarrow> LOG LOGLEVEL_ERROR (CouldntAddToRegistry nm) s1)"

text \<open>
  \<^verbatim>\<open>PluginMgr::findFirst\<close> and \<^verbatim>\<open>PluginMgr::findNext\<close>: the name at the registry's cursor
  after restarting or advancing it, \<open>None\<close> for \<^verbatim>\<open>nullptr\<close>.
\<close>

definition findFirst :: "'v world \<Rightarrow> string option \<times> 'v world" where
  "findFirst s =
     (case LinkedList_selectFirstElement (m_registry s) of
        (True, reg) \<Rightarrow> (map_option name (LinkedList_current reg), s\<lparr>m_registry := reg\<rparr>)
      | (False, reg) \<Rightarrow> (None, s\<lparr>m_registry := reg\<rparr>))"

definition findNext :: "'v world \<Rightarrow> string option \<times> 'v world" where
  "findNext s =
     (case LinkedList_next (m_registry s) of
        (True, reg) \<Rightarrow> (map_option name (LinkedList_current reg), s\<lparr>m_registry := reg\<rparr>)
      | (False, reg) \<Rightarrow> (None, s\<lparr>m_registry := reg\<rparr>))"

text \<open>
  \<^verbatim>\<open>RestApi::BASE_URI\<close> is declared in RestApi.h, which is missing; its value is taken
  from the routes that \<^verbatim>\<open>RestApi::init\<close> registers.
\<close>

definition RestApi_BASE_URI :: string where
  "RestApi_BASE_URI = ''/rest/api/v1''"

text \<open>\<^verbatim>\<open>PluginMgr::getRestApiBaseUri\<close>.\<close>

definition getRestApiBaseUri :: "uint16_t \<Rightarrow> string" where
  "getRestApiBaseUri uid = RestApi_BASE_URI @ ''/display'' @ ''/uid/'' @ decimal (unat uid)"

text \<open>
  \<^verbatim>\<open>PluginMgr::generateUID\<close>. The inner \<^verbatim>\<open>while\<close> walks the active plugins with the list's
  cursor until the drawn uid is found or the list ends. The \<^verbatim>\<open>do\<close> loop draws again while
  the uid was found; it has no bound, so the model runs it on the recorded draws and
  gives \<open>None\<close> when they are used up before a free uid has been drawn.
\<close>

function generateUID_while ::
  "uint16_t \<Rightarrow> bool \<Rightarrow> Plugin option \<Rightarrow> Plugin LinkedList \<Rightarrow> bool \<times> Plugin LinkedList" where
  "generateUID_while uid isFound plugin l =
     (case plugin of
        Some p \<Rightarrow>
          (if isFound = False then
             (if uid = getUID p then generateUID_while uid True plugin l
              else (case LinkedList_next l of
                      (False, l') \<Rightarrow> generateUID_while uid isFound None l'
                    | (True, l') \<Rightarrow> generateUID_while uid isFound (LinkedList_current l') l'))
           else (isFound, l))
      | None \<Rightarrow> (isFound, l))"
  by pat_completeness auto
termination
  by (relation "measure (\<lambda>(uid, isFound, plugin, l).
        if isFound \<or> plugin = None then 0 else Suc (length (elems l) - curr l))")
     (auto simp: LinkedList_next_def split: if_splits)

fun generateUID_do ::
  "uint16_t list \<Rightarrow> Plugin LinkedList \<Rightarrow> (uint16_t \<times> uint16_t list \<times> Plugin LinkedList) option" where
  "generateUID_do [] l = None"
| "generateUID_do (r # rs) l =
     (let uid = r;
          (isFound, l') =
             (case LinkedList_selectFirstElement l of
                (True, l1) \<Rightarrow> generateUID_while uid False (LinkedList_current l1) l1
              | (False, l1) \<Rightarrow> (False, l1))
      in if isFound = True then generateUID_do rs l' else Some (uid, rs, l'))"

definition generateUID :: "'v world \<Rightarrow> (uint16_t \<times> 'v world) option" where
  "generateUID s =
     (case generateUID_do (randomDraws s) (m_plugins s) of
        None \<Rightarrow> None
      | Some (uid, rs, l) \<Rightarrow> Some (uid, s\<lparr>randomDraws := rs, m_plugins := l\<rparr>))"

text \<open>
  \<^verbatim>\<open>PluginMgr::installToAutoSlot\<close> and \<^verbatim>\<open>PluginMgr::installToSlot\<close>: place the plugin in
  the display manager, append it to the active plugins (taking the placement back when
  the list node cannot be allocated), and register its web interface.
\<close>

definition installToAutoSlot :: "Plugin option \<Rightarrow> 'v world \<Rightarrow> bool \<times> 'v world" where
  "installToAutoSlot plugin s =
     (case plugin of
        None \<Rightarrow> (False, s)
      | Some p \<Rightarrow>
          (case DisplayMgr_installPlugin_auto p (m_slots s) of
             (slotId, slots) \<Rightarrow>
               (let s1 = s\<lparr>m_slots := slots\<rparr> in
                if SLOT_ID_INVALID = slotId then
                  (False, LOG LOGLEVEL_ERROR (CouldntInstallPlugin (getName p)) s1)
                else
                  (case operator_new s1 of
                     (nodeOk, s2) \<Rightarrow>
                       (case LinkedList_append nodeOk (m_plugins s2) p of
                          (False, l) \<Rightarrow>
                            (let s3 = LOG LOGLEVEL_ERROR (CouldntAppendPlugin (getName p))
                                        (s2\<lparr>m_plugins := l\<rparr>)
                             in (False, s3\<lparr>m_slots :=
                                          snd (DisplayMgr_uninstallPlugin p (m_slots s3))\<rparr>))
                        | (True, l) \<Rightarrow>
                            (let baseUri = getRestApiBaseUri (getUID p)
                             in (True, registerWebInterface p baseUri
                                         (s2\<lparr>m_plugins := l\<rparr>))))))))"

definition installToSlot :: "Plugin option \<Rightarrow> uint8_t \<Rightarrow> 'v world \<Rightarrow> bool \<times> 'v world" where
  "installToSlot plugin slotId s =
     (case plugin of
        None \<Rightarrow> (False, s)
      | Some p \<Rightarrow>
          (case DisplayMgr_installPlugin p slotId (m_slots s) of
             (placed, slots) \<Rightarrow>
               (let s1 = s\<lparr>m_slots := slots\<rparr> in
                if SLOT_ID_INVALID = placed then
                  (False, LOG LOGLEVEL_ERROR (CouldntInstallPluginToSlot (getName p) slotId) s1)
                else
                  (case operator_new s1 of
                     (nodeOk, s2) \<Rightarrow>
                       (case LinkedList_append nodeOk (m_plugins s2) p of
                          (False, l) \<Rightarrow>
                            (let s3 = LOG LOGLEVEL_ERROR (CouldntAppendPlugin (getName p))
                                        (s2\<lparr>m_plugins := l\<rparr>)
                             in (False, s3\<lparr>m_slots :=
                                          snd (DisplayMgr_uninstallPlugin p (m_slots s3))\<rparr>))
                        | (True, l) \<Rightarrow>
                            (let baseUri = getRestApiBaseUri (getUID p)
                             in (True, registerWebInterface p baseUri
                                         (s2\<lparr>m_plugins := l\<rparr>))))))))"

text \<open>
  \<^verbatim>\<open>PluginMgr::install(name, uid, slotId)\<close>, named \<open>install_uid\<close> here. The \<^verbatim>\<open>while\<close> loop
  looks the name up in the registry with the list's cursor; the plugin is then created and
  placed, and deleted again when it cannot be placed.
\<close>

function install_while ::
  "string \<Rightarrow> bool \<Rightarrow> PluginRegEntry option \<Rightarrow> PluginRegEntry LinkedList
     \<Rightarrow> bool \<times> PluginRegEntry option \<times> PluginRegEntry LinkedList" where
  "install_while nm isFound entry reg =
     (case entry of
        Some e \<Rightarrow>
          (if isFound = False then
             (if nm = name e then install_while nm True entry reg
              else (case LinkedList_next reg of
                      (False, reg') \<Rightarrow> install_while nm isFound None reg'
                    | (True, reg') \<Rightarrow> install_while nm isFound (LinkedList_current reg') reg'))
           else (isFound, entry, reg))
      | None \<Rightarrow> (isFound, entry, reg))"
  by pat_completeness auto
termination
  by (relation "measure (\<lambda>(nm, isFound, entry, reg).
        if isFound \<or> entry = None then 0 else Suc (length (elems reg) - curr reg))")
     (auto simp: LinkedList_next_def split: if_splits)

definition install_uid ::
  "string \<Rightarrow> uint16_t \<Rightarrow> uint8_t \<Rightarrow> 'v world \<Rightarrow> Plugin option \<times> 'v world" where
  "install_uid nm uid slotId s =
     (case LinkedList_selectFirstElement (m_registry s) of
        (False, reg) \<Rightarrow> (None, s\<lparr>m_registry := reg\<rparr>)
      | (True, reg) \<Rightarrow>
          (case install_while nm False (LinkedList_current reg) reg of
             (isFound, entry, reg') \<Rightarrow>
               (let s1 = s\<lparr>m_registry := reg'\<rparr> in
                case entry of
                  None \<Rightarrow> (None, s1)
                | Some e \<Rightarrow>
                    (if isFound = True then
                       (case createPlugin (createFunc e) (name e) uid s1 of
                          (plugin, s2) \<Rightarrow>
                            (if SLOT_ID_INVALID = slotId then
                               (case installToAutoSlot plugin s2 of
                                  (False, s3) \<Rightarrow> (None, operator_delete plugin s3)
                                | (True, s3) \<Rightarrow> (plugin, s3))
                             else
                               (case installToSlot plugin slotId s2 of
                                  (False, s3) \<Rightarrow> (None, operator_delete plugin s3)
                                | (True, s3) \<Rightarrow> (plugin, s3))))
                     else (None, s1)))))"

text \<open>\<^verbatim>\<open>PluginMgr::install(name, slotId)\<close>: the same with a generated uid.\<close>

definition install :: "string \<Rightarrow> uint8_t \<Rightarrow> 'v world \<Rightarrow> (Plugin option \<times> 'v world) option" where
  "install nm slotId s =
     (case generateUID s of
        None \<Rightarrow> None
      | Some (uid, s1) \<Rightarrow> Some (install_uid nm uid slotId s1))"

text \<open>\<^verbatim>\<open>PluginMgr::uninstall\<close>.\<close>

definition uninstall :: "Plugin option \<Rightarrow> 'v world \<Rightarrow> bool \<times> 'v world" where
  "uninstall plugin s =
     (case plugin of
        None \<Rightarrow> (False, s)
      | Some p \<Rightarrow>
          (case LinkedList_find (m_plugins s) p of
             (False, l) \<Rightarrow>
               (False, LOG LOGLEVEL_WARNING (PluginNotFoundInList p) (s\<lparr>m_plugins := l\<rparr>))
           | (True, l) \<Rightarrow>
               (let s1 = s\<lparr>m_plugins := l\<rparr> in
                case DisplayMgr_uninstallPlugin p (m_slots s1) of
                  (status, slots) \<Rightarrow>
                    (let s2 = s1\<lparr>m_slots := slots\<rparr> in
                     if status = True then
                       (let s3 = unregisterWebInterface p s2
                        in (status, s3\<lparr>m_plugins := LinkedList_removeSelected (m_plugins s3)\<rparr>))
                     else (status, s2)))))"

text \<open>
  \<^verbatim>\<open>PluginMgr::load\<close>. The range-based \<^verbatim>\<open>for\<close> over the array is \<open>load_for\<close>, with the slot
  id counted in a \<^verbatim>\<open>uint8_t\<close> and the \<^verbatim>\<open>break\<close> as the source has it. \<^verbatim>\<open>MAX_SLOTS\<close> is a
  constant of DisplayMgr.h (missing) and a parameter here.
\<close>

fun load_for :: "uint8_t \<Rightarrow> JsonSlot list \<Rightarrow> uint8_t \<Rightarrow> 'v world \<Rightarrow> 'v world" where
  "load_for MAX_SLOTS [] slotId s = s"
| "load_for MAX_SLOTS (jsonSlot # rest) slotId s =
     (let nm = slot_name jsonSlot;
          uid = slot_uid jsonSlot;
          s1 = (if nm \<noteq> [] then
                  (case install_uid nm uid slotId s of
                     (None, s') \<Rightarrow> LOG LOGLEVEL_WARNING (CouldntInstallInSlot nm uid slotId) s'
                   | (Some p, s') \<Rightarrow> enable p s')
                else s);
          slotId' = slotId + 1
      in if slotId' \<le> MAX_SLOTS then s1 else load_for MAX_SLOTS rest slotId' s1)"

definition load :: "'v JsonLib \<Rightarrow> uint8_t \<Rightarrow> 'v world \<Rightarrow> 'v world" where
  "load J MAX_SLOTS s =
     (case Settings_open True s of
        (False, s1) \<Rightarrow> LOG LOGLEVEL_WARNING CouldntOpenFilesystem s1
      | (True, s1) \<Rightarrow>
          (let installation = pluginInstallation s1;
               parsed = deserializeJson J installation;
               s2 = (if JSON_DOC_SIZE \<le> memoryUsageParsed J installation
                     then LOG LOGLEVEL_WARNING MaxJsonBufferSizeReached s1 else s1);
               s3 = Settings_close s2
           in case parsed of
                None \<Rightarrow> LOG LOGLEVEL_WARNING JsonDeserializationFailed s3
              | Some jsonSlots \<Rightarrow> load_for MAX_SLOTS jsonSlots 0 s3))"

text \<open>
  \<^verbatim>\<open>PluginMgr::save\<close>. The counting \<^verbatim>\<open>for\<close> that builds the array is \<open>save_for\<close>. How much
  a \<^verbatim>\<open>DynamicJsonDocument\<close> of 512 bytes can hold is a matter of the library and outside
  the model: the document is built in full.
\<close>

function save_for ::
  "uint8_t \<Rightarrow> uint8_t \<Rightarrow> Plugin option list \<Rightarrow> JsonSlot list \<Rightarrow> JsonSlot list" where
  "save_for MAX_SLOTS slotId slots jsonSlots =
     (if slotId < MAX_SLOTS then
        save_for MAX_SLOTS (slotId + 1) slots
          (jsonSlots @
             [case getPluginInSlot slotId slots of
                None \<Rightarrow> \<lparr>slot_name = [], slot_uid = 0\<rparr>
              | Some p \<Rightarrow> \<lparr>slot_name = getName p, slot_uid = getUID p\<rparr>])
      else jsonSlots)"
  by pat_completeness auto
termination
  by (relation "measure (\<lambda>(MAX_SLOTS, slotId, slots, jsonSlots). unat MAX_SLOTS - unat slotId)")
     (simp, unat_arith)

definition save :: "'v JsonLib \<Rightarrow> uint8_t \<Rightarrow> 'v world \<Rightarrow> 'v world" where
  "save J MAX_SLOTS s =
     (let jsonSlots = save_for MAX_SLOTS 0 (m_slots s) []
      in case Settings_open False s of
           (False, s1) \<Rightarrow> LOG LOGLEVEL_WARNING CouldntOpenFilesystem s1
         | (True, s1) \<Rightarrow>
             (let s2 = (if JSON_DOC_SIZE \<le> memoryUsageBuilt J jsonSlots
                        then LOG LOGLEVEL_WARNING MaxJsonBufferSizeReached s1 else s1);
                  installation = serializeJson J jsonSlots;
                  s3 = s2\<lparr>pluginInstallation := installation\<rparr>
              in Settings_close s3))"


subsection \<open>Projections and fixtures\<close>

text \<open>What the settings store holds and how often it has been opened and closed.\<close>

definition settings_of :: "'v world \<Rightarrow> bool \<times> bool \<times> nat \<times> nat \<times> 'v" where
  "settings_of s =
     (fsOk s, settings_isOpen s, settings_opens s, settings_closes s, pluginInstallation s)"

text \<open>
  Modelled from the spec: the state after power-up, before any plugin is registered (the
  constructors are in missing headers): empty lists, a table of \<open>n\<close> free slots, the
  settings closed and holding \<open>v\<close>.
\<close>

definition boot :: "nat \<Rightarrow> 'v \<Rightarrow> 'v world" where
  "boot n v =
     \<lparr>m_registry = \<lparr>elems = [], curr = 0\<rparr>,
      m_plugins = \<lparr>elems = [], curr = 0\<rparr>,
      m_slots = replicate n None,
      webInterfaces = [],
      heap = [],
      enabled = [],
      nextAddr = 0,
      newOk = [],
      randomDraws = [],
      fsOk = True,
      settings_isOpen = False,
      settings_opens = 0,
      settings_closes = 0,
      pluginInstallation = v,
      logs = []\<rparr>"

text \<open>A JSON library that loses nothing: the stored value is the document itself.\<close>

definition plainJson :: "JsonSlot list JsonLib" where
  "plainJson =
     \<lparr>deserializeJson = Some, serializeJson = (\<lambda>doc. doc),
      memoryUsageParsed = (\<lambda>doc. 0), memoryUsageBuilt = (\<lambda>doc. 0)\<rparr>"

text \<open>
  The scenario of the specification: a table of four slots, and the plugin types
  \<^verbatim>\<open>Clock\<close> and \<^verbatim>\<open>Weather\<close> registered at start-up, in this order.
\<close>

definition twoPlugins :: "'v \<Rightarrow> 'v world" where
  "twoPlugins v = registerPlugin ''Weather'' 2 (registerPlugin ''Clock'' 1 (boot 4 v))"

text \<open>
  \<^verbatim>\<open>Clock\<close> installed in a slot chosen by the display manager, then \<^verbatim>\<open>Weather\<close> in
  slot 1; the random source draws 7 and 9.
\<close>

definition liveScenario :: "(Plugin option \<times> JsonSlot list world) option" where
  "liveScenario =
     Option.bind (install ''Clock'' SLOT_ID_INVALID ((twoPlugins [])\<lparr>randomDraws := [7, 9]\<rparr>))
       (\<lambda>(clock, s). install ''Weather'' 1 s)"

text \<open>The next \<open>n\<close> allocations succeed.\<close>

definition nextAllocsOk :: "nat \<Rightarrow> 'v world \<Rightarrow> bool" where
  "nextAllocsOk n s = list_all (\<lambda>ok. ok) (take n (newOk s))"

text \<open>
  The iteration a caller performs to list the plugin types: \<^verbatim>\<open>findFirst()\<close>, then
  \<^verbatim>\<open>findNext()\<close> until it returns \<^verbatim>\<open>nullptr\<close>. The loop is bounded by the number of
  registry entries, which is more than the calls it can take.
\<close>

fun findNext_loop :: "nat \<Rightarrow> 'v world \<Rightarrow> string list" where
  "findNext_loop 0 s = []"
| "findNext_loop (Suc k) s =
     (case findNext s of
        (None, s') \<Rightarrow> []
      | (Some nm, s') \<Rightarrow> nm # findNext_loop k s')"

definition listNames :: "'v world \<Rightarrow> string list" where
  "listNames s =
     (case findFirst s of
        (None, s') \<Rightarrow> []
      | (Some nm, s') \<Rightarrow> nm # findNext_loop (length (elems (m_registry s'))) s')"

text \<open>
  Every pointer held by the heap or by the slot table was handed out before, so the next
  address is new; and the slot table has at most 255 slots, its ids being \<^verbatim>\<open>uint8_t\<close>
  below the invalid one.
\<close>

fun handedOut :: "nat \<Rightarrow> Plugin option \<Rightarrow> bool" where
  "handedOut n None = True"
| "handedOut n (Some p) = (addr p < n)"

definition fresh_addrs :: "'v world \<Rightarrow> bool" where
  "fresh_addrs s =
     (list_all (\<lambda>p. addr p < nextAddr s) (heap s) \<and>
      list_all (handedOut (nextAddr s)) (m_slots s) \<and>
      length (m_slots s) \<le> 255)"

text \<open>What is installed: slot table, active plugins, web interfaces, enabled and live plugins.\<close>

definition installed_of ::
  "'v world \<Rightarrow> Plugin option list \<times> Plugin LinkedList \<times> (Plugin \<times> string) list \<times> Plugin list \<times> Plugin list" where
  "installed_of s = (m_slots s, m_plugins s, webInterfaces s, enabled s, heap s)"

text \<open>The state the scenario ends in, and its two plugins.\<close>

definition liveWorld :: "JsonSlot list world" where
  "liveWorld = (case liveScenario of Some (weather, s) \<Rightarrow> s | None \<Rightarrow> twoPlugins [])"

definition clockPlugin :: Plugin where
  "clockPlugin = \<lparr>addr = 0, madeBy = 1, getName = ''Clock'', getUID = 7\<rparr>"

definition weatherPlugin :: Plugin where
  "weatherPlugin = \<lparr>addr = 1, madeBy = 2, getName = ''Weather'', getUID = 9\<rparr>"

text \<open>The uids of the active plugins, in the order of the list.\<close>

definition uids :: "'v world \<Rightarrow> uint16_t list" where
  "uids s = map getUID (elems (m_plugins s))"

text \<open>
  A sequence of calls of the public \<^verbatim>\<open>install(name, slotId)\<close>, none of them followed by an
  uninstall. \<open>None\<close> when a call does not return within the recorded random draws.
\<close>

fun install_all :: "(string \<times> uint8_t) list \<Rightarrow> 'v world \<Rightarrow> 'v world option" where
  "install_all [] s = Some s"
| "install_all ((nm, slotId) # reqs) s =
     (case install nm slotId s of
        None \<Rightarrow> None
      | Some (plugin, s') \<Rightarrow> install_all reqs s')"

section \<open>Theorems\<close>

subsection \<open>The settings store is touched by load and save only\<close>

declare generateUID_while.simps [simp del]
declare install_while.simps [simp del]
declare save_for.simps [simp del]

lemma settings_of_LOG [simp]: "settings_of (LOG lvl msg s) = settings_of s"
  by (simp add: settings_of_def LOG_def)

lemma settings_of_operator_new [simp]: "settings_of (snd (operator_new s)) = settings_of s"
  by (simp add: settings_of_def operator_new_def split: list.splits)

lemma settings_of_operator_delete [simp]: "settings_of (operator_delete p s) = settings_of s"
  by (simp add: settings_of_def operator_delete_def split: option.splits)

lemma settings_of_createPlugin [simp]:
  "settings_of (snd (createPlugin cf nm uid s)) = settings_of s"
  using settings_of_operator_new [of s]
  by (auto simp: createPlugin_def settings_of_def Let_def split: prod.splits bool.splits)

lemma settings_of_installToAutoSlot [simp]:
  "settings_of (snd (installToAutoSlot plugin s)) = settings_of s"
proof (cases plugin)
  case None
  then show ?thesis by (simp add: installToAutoSlot_def)
next
  case (Some p)
  obtain slotId slots where dm: "DisplayMgr_installPlugin_auto p (m_slots s) = (slotId, slots)"
    by (cases "DisplayMgr_installPlugin_auto p (m_slots s)")
  have n: "settings_of (snd (operator_new (s\<lparr>m_slots := slots\<rparr>))) = settings_of s"
    by (simp add: settings_of_def operator_new_def split: list.splits)
  show ?thesis
    using n
    by (auto simp: installToAutoSlot_def Some dm Let_def settings_of_def LOG_def
          registerWebInterface_def LinkedList_append_def split: prod.splits bool.splits if_splits)
qed

lemma settings_of_installToSlot [simp]:
  "settings_of (snd (installToSlot plugin slotId s)) = settings_of s"
proof (cases plugin)
  case None
  then show ?thesis by (simp add: installToSlot_def)
next
  case (Some p)
  obtain placed slots where dm: "DisplayMgr_installPlugin p slotId (m_slots s) = (placed, slots)"
    by (cases "DisplayMgr_installPlugin p slotId (m_slots s)")
  have n: "settings_of (snd (operator_new (s\<lparr>m_slots := slots\<rparr>))) = settings_of s"
    by (simp add: settings_of_def operator_new_def split: list.splits)
  show ?thesis
    using n
    by (auto simp: installToSlot_def Some dm Let_def settings_of_def LOG_def
          registerWebInterface_def LinkedList_append_def split: prod.splits bool.splits if_splits)
qed

lemma settings_of_install_uid [simp]:
  "settings_of (snd (install_uid nm uid slotId s)) = settings_of s"
proof -
  have r: "settings_of (s\<lparr>m_registry := reg\<rparr>) = settings_of s" for reg
    by (simp add: settings_of_def)
  have a: "settings_of (snd (installToAutoSlot plugin (snd (createPlugin cf n uid (s\<lparr>m_registry := reg\<rparr>)))))
             = settings_of s" for plugin cf n reg
    by (simp add: r)
  have b: "settings_of (snd (installToSlot plugin slotId (snd (createPlugin cf n uid (s\<lparr>m_registry := reg\<rparr>)))))
             = settings_of s" for plugin cf n reg
    by (simp add: r)
  show ?thesis
    unfolding install_uid_def Let_def
    apply (simp split: prod.splits bool.splits option.splits add: r)
    apply (intro allI impI conjI)
    apply (simp_all add: r)
    using a b
    apply (metis snd_conv)+
    done
qed

subsection \<open>Concrete runs\<close>

lemma replicate_4: "replicate 4 x = [x, x, x, x]"
  by (simp add: numeral_eq_Suc)

lemmas eval_defs =
  boot_def plainJson_def twoPlugins_def registerPlugin_def operator_new_def operator_delete_def
  LinkedList_append_def LinkedList_selectFirstElement_def LinkedList_next_def
  LinkedList_current_def LinkedList_find_def LinkedList_removeSelected_def removeAt_def
  DisplayMgr_installPlugin_auto_def DisplayMgr_installPlugin_def DisplayMgr_uninstallPlugin_def
  getPluginInSlot_def createPlugin_def enable_def registerWebInterface_def
  unregisterWebInterface_def Settings_open_def Settings_close_def LOG_def
  install_uid_def installToSlot_def installToAutoSlot_def load_def save_def
  install_def generateUID_def uninstall_def
  install_while.simps generateUID_while.simps save_for.simps
  SLOT_ID_INVALID_def JSON_DOC_SIZE_def Let_def replicate_4

lemma settings_of_enable [simp]: "settings_of (enable p s) = settings_of s"
  by (simp add: settings_of_def enable_def)

lemma settings_of_load_for [simp]:
  "settings_of (load_for MAX_SLOTS jsonSlots slotId s) = settings_of s"
proof (induction jsonSlots arbitrary: slotId s)
  case Nil
  then show ?case by simp
next
  case (Cons jsonSlot rest)
  have step: "settings_of
      (case install_uid nm uid slotId s of
         (None, s') \<Rightarrow> LOG LOGLEVEL_WARNING (CouldntInstallInSlot nm uid slotId) s'
       | (Some p, s') \<Rightarrow> enable p s') = settings_of s" for nm uid
    using settings_of_install_uid [of nm uid slotId s]
    by (cases "install_uid nm uid slotId s") (auto split: option.splits)
  show ?case
    by (simp add: Let_def Cons.IH step)
qed

lemma settings_fields:
  "settings_of s' = settings_of s \<Longrightarrow>
     fsOk s' = fsOk s \<and> settings_isOpen s' = settings_isOpen s \<and>
     settings_opens s' = settings_opens s \<and> settings_closes s' = settings_closes s \<and>
     pluginInstallation s' = pluginInstallation s"
  by (simp add: settings_of_def)

lemma load_settings:
  "settings_of (load J MAX_SLOTS s) =
     (if fsOk s
      then (True, False, Suc (settings_opens s), Suc (settings_closes s), pluginInstallation s)
      else settings_of s)"
proof (cases "fsOk s")
  case False
  then show ?thesis by (simp add: load_def Settings_open_def)
next
  case True
  have c: "settings_of (Settings_close (LOG l m s1)) = settings_of (Settings_close s1)" for l m and s1 :: "'a world"
    by (simp add: settings_of_def Settings_close_def LOG_def)
  show ?thesis using True
    by (simp add: load_def Settings_open_def Let_def c split: option.splits)
       (simp add: settings_of_def Settings_close_def)
qed

lemma save_settings:
  "settings_of (save J MAX_SLOTS s) =
     (if fsOk s
      then (True, False, Suc (settings_opens s), Suc (settings_closes s),
            serializeJson J (save_for MAX_SLOTS 0 (m_slots s) []))
      else settings_of s)"
  by (simp add: save_def Settings_open_def Let_def settings_of_def Settings_close_def LOG_def)

text \<open>
  C8: on every path of \<^verbatim>\<open>load()\<close> and of \<^verbatim>\<open>save()\<close> the settings store is released before
  the call returns. When opening succeeds the store is opened once, closed once and is
  closed at the end, whatever the document holds; when opening fails nothing is opened or
  closed and the store is as it was.
\<close>

theorem settings_closed_on_every_path:
  "(fsOk s \<longrightarrow>
      \<not> settings_isOpen (load J MAX_SLOTS s) \<and>
      settings_opens (load J MAX_SLOTS s) = Suc (settings_opens s) \<and>
      settings_closes (load J MAX_SLOTS s) = Suc (settings_closes s) \<and>
      \<not> settings_isOpen (save J MAX_SLOTS s) \<and>
      settings_opens (save J MAX_SLOTS s) = Suc (settings_opens s) \<and>
      settings_closes (save J MAX_SLOTS s) = Suc (settings_closes s)) \<and>
   (\<not> fsOk s \<longrightarrow>
      settings_isOpen (load J MAX_SLOTS s) = settings_isOpen s \<and>
      settings_opens (load J MAX_SLOTS s) = settings_opens s \<and>
      settings_closes (load J MAX_SLOTS s) = settings_closes s \<and>
      settings_isOpen (save J MAX_SLOTS s) = settings_isOpen s \<and>
      settings_opens (save J MAX_SLOTS s) = settings_opens s \<and>
      settings_closes (save J MAX_SLOTS s) = settings_closes s)"
  using load_settings [of J MAX_SLOTS s] save_settings [of J MAX_SLOTS s]
  by (simp add: settings_of_def split: if_splits)

text \<open>
  C10: \<^verbatim>\<open>save()\<close> leaves the slot table, the active plugins and the registry as they
  were, and with them every other part of the state except the log and the settings
  store, whose stored installation becomes the serialised document (when the store can be
  opened).
\<close>

theorem save_leaves_core_state:
  "m_slots (save J MAX_SLOTS s) = m_slots s \<and>
   m_plugins (save J MAX_SLOTS s) = m_plugins s \<and>
   m_registry (save J MAX_SLOTS s) = m_registry s \<and>
   heap (save J MAX_SLOTS s) = heap s \<and>
   enabled (save J MAX_SLOTS s) = enabled s \<and>
   webInterfaces (save J MAX_SLOTS s) = webInterfaces s \<and>
   nextAddr (save J MAX_SLOTS s) = nextAddr s \<and>
   newOk (save J MAX_SLOTS s) = newOk s \<and>
   randomDraws (save J MAX_SLOTS s) = randomDraws s \<and>
   fsOk (save J MAX_SLOTS s) = fsOk s \<and>
   pluginInstallation (save J MAX_SLOTS s) =
     (if fsOk s then serializeJson J (save_for MAX_SLOTS 0 (m_slots s) [])
      else pluginInstallation s)"
  by (simp add: save_def Settings_open_def Let_def Settings_close_def LOG_def)

theorem settings_closed_on_every_path_witness:
  "fsOk (twoPlugins []) \<and>
   \<not> settings_isOpen (load plainJson 4 (twoPlugins [])) \<and>
   settings_opens (load plainJson 4 (twoPlugins [])) = 1 \<and>
   settings_closes (load plainJson 4 (twoPlugins [])) = 1 \<and>
   \<not> settings_isOpen (save plainJson 4 (twoPlugins [])) \<and>
   settings_closes (save plainJson 4 (twoPlugins [])) = 1 \<and>
   \<not> fsOk ((twoPlugins [])\<lparr>fsOk := False\<rparr>) \<and>
   \<not> settings_isOpen (load plainJson 4 ((twoPlugins [])\<lparr>fsOk := False\<rparr>)) \<and>
   settings_closes (load plainJson 4 ((twoPlugins [])\<lparr>fsOk := False\<rparr>)) = 0 \<and>
   settings_closes (save plainJson 4 ((twoPlugins [])\<lparr>fsOk := False\<rparr>)) = 0"
  using settings_closed_on_every_path [of "twoPlugins []" plainJson 4]
        settings_closed_on_every_path [of "(twoPlugins [])\<lparr>fsOk := False\<rparr>" plainJson 4]
  by (simp add: twoPlugins_def boot_def registerPlugin_def operator_new_def
        LinkedList_append_def LOG_def)

subsection \<open>Restoring the persisted installation\<close>

lemma load_for_breaks:
  "slotId + 1 \<le> MAX_SLOTS \<Longrightarrow>
     load_for MAX_SLOTS (jsonSlot # rest) slotId s = load_for MAX_SLOTS [jsonSlot] slotId s"
  by (simp add: Let_def)

lemma load_for_first_only:
  "MAX_SLOTS \<noteq> 0 \<Longrightarrow>
     load_for MAX_SLOTS (jsonSlot # rest) 0 s = load_for MAX_SLOTS [jsonSlot] 0 s"
  by (rule load_for_breaks) (simp add: word_le_nat_alt unat_gt_0 Suc_leI)

text \<open>
  C1: \<^verbatim>\<open>load()\<close> is meant to consider every slot of the persisted document. The loop
  leaves as soon as the incremented slot id is at most \<^verbatim>\<open>MAX_SLOTS\<close>, that is after the
  first element. With \<^verbatim>\<open>Clock\<close> persisted for slot 0 and \<^verbatim>\<open>Weather\<close> for slot 1, both
  registered, only \<^verbatim>\<open>Clock\<close> is installed and enabled; \<^verbatim>\<open>Weather\<close> is neither installed nor
  reported in a warning.
\<close>

theorem load_considers_first_slot_only:
  "m_slots (load plainJson 4
      (twoPlugins [\<lparr>slot_name = ''Clock'', slot_uid = 7\<rparr>,
                   \<lparr>slot_name = ''Weather'', slot_uid = 9\<rparr>,
                   \<lparr>slot_name = [], slot_uid = 0\<rparr>,
                   \<lparr>slot_name = [], slot_uid = 0\<rparr>])) =
     [Some \<lparr>addr = 0, madeBy = 1, getName = ''Clock'', getUID = 7\<rparr>, None, None, None] \<and>
   enabled (load plainJson 4
      (twoPlugins [\<lparr>slot_name = ''Clock'', slot_uid = 7\<rparr>,
                   \<lparr>slot_name = ''Weather'', slot_uid = 9\<rparr>,
                   \<lparr>slot_name = [], slot_uid = 0\<rparr>,
                   \<lparr>slot_name = [], slot_uid = 0\<rparr>])) =
     [\<lparr>addr = 0, madeBy = 1, getName = ''Clock'', getUID = 7\<rparr>] \<and>
   logs (load plainJson 4
      (twoPlugins [\<lparr>slot_name = ''Clock'', slot_uid = 7\<rparr>,
                   \<lparr>slot_name = ''Weather'', slot_uid = 9\<rparr>,
                   \<lparr>slot_name = [], slot_uid = 0\<rparr>,
                   \<lparr>slot_name = [], slot_uid = 0\<rparr>])) =
     [(LOGLEVEL_INFO, PluginRegistered ''Clock''), (LOGLEVEL_INFO, PluginRegistered ''Weather'')]"
  by (simp add: eval_defs)

text \<open>
  C2: the round trip of the specification's scenario. \<^verbatim>\<open>Clock\<close> sits in slot 0 and
  \<^verbatim>\<open>Weather\<close> in slot 1 when \<^verbatim>\<open>save()\<close> runs, and the stored document says so. After a
  restart with the same registry, \<^verbatim>\<open>load()\<close> of that document brings back slot 0 only:
  slot 1 stays empty.
\<close>

theorem save_load_round_trip_loses_slots:
  "map_option (\<lambda>(weather, s). m_slots s) liveScenario =
     Some [Some \<lparr>addr = 0, madeBy = 1, getName = ''Clock'', getUID = 7\<rparr>,
           Some \<lparr>addr = 1, madeBy = 2, getName = ''Weather'', getUID = 9\<rparr>, None, None] \<and>
   map_option (\<lambda>(weather, s). pluginInstallation (save plainJson 4 s)) liveScenario =
     Some [\<lparr>slot_name = ''Clock'', slot_uid = 7\<rparr>,
           \<lparr>slot_name = ''Weather'', slot_uid = 9\<rparr>,
           \<lparr>slot_name = [], slot_uid = 0\<rparr>,
           \<lparr>slot_name = [], slot_uid = 0\<rparr>] \<and>
   map_option (\<lambda>(weather, s).
       m_slots (load plainJson 4 (twoPlugins (pluginInstallation (save plainJson 4 s)))))
     liveScenario =
     Some [Some \<lparr>addr = 0, madeBy = 1, getName = ''Clock'', getUID = 7\<rparr>, None, None, None]"
  by (simp add: liveScenario_def eval_defs)

subsection \<open>The registry\<close>

lemma findNext_loop_drop:
  "curr (m_registry s) < length (elems (m_registry s)) \<Longrightarrow>
   length (elems (m_registry s)) \<le> curr (m_registry s) + Suc k \<Longrightarrow>
   findNext_loop k s = map name (drop (Suc (curr (m_registry s))) (elems (m_registry s)))"
proof (induction k arbitrary: s)
  case 0
  then show ?case by simp
next
  case (Suc k)
  show ?case
  proof (cases "Suc (curr (m_registry s)) < length (elems (m_registry s))")
    case False
    then show ?thesis
      by (simp add: findNext_def LinkedList_next_def)
  next
    case True
    let ?s' = "s\<lparr>m_registry := (m_registry s)\<lparr>curr := Suc (curr (m_registry s))\<rparr>\<rparr>"
    have nxt: "findNext s = (Some (name (elems (m_registry s) ! Suc (curr (m_registry s)))), ?s')"
      using True by (simp add: findNext_def LinkedList_next_def LinkedList_current_def)
    have ih: "findNext_loop k ?s' =
                map name (drop (Suc (Suc (curr (m_registry s)))) (elems (m_registry s)))"
      using Suc.IH [of ?s'] True Suc.prems by simp
    have "drop (Suc (curr (m_registry s))) (elems (m_registry s)) =
            elems (m_registry s) ! Suc (curr (m_registry s)) #
            drop (Suc (Suc (curr (m_registry s)))) (elems (m_registry s))"
      using True by (simp add: Cons_nth_drop_Suc)
    then show ?thesis
      by (simp add: nxt ih)
  qed
qed

lemma listNames_registry: "listNames s = map name (elems (m_registry s))"
proof (cases "elems (m_registry s)")
  case Nil
  then show ?thesis
    by (simp add: listNames_def findFirst_def LinkedList_selectFirstElement_def)
next
  case (Cons e es)
  let ?s' = "s\<lparr>m_registry := (m_registry s)\<lparr>curr := 0\<rparr>\<rparr>"
  have first: "findFirst s = (Some (name e), ?s')"
    using Cons
    by (simp add: findFirst_def LinkedList_selectFirstElement_def LinkedList_current_def)
  have "findNext_loop (length (elems (m_registry ?s'))) ?s' = map name es"
    using findNext_loop_drop [of ?s' "length (elems (m_registry ?s'))"] Cons by simp
  then show ?thesis
    using Cons by (simp add: listNames_def first)
qed

lemma registerPlugin_registry:
  "m_registry (registerPlugin nm cf s) =
     (if nextAllocsOk 2 s
      then (m_registry s)\<lparr>elems := elems (m_registry s) @ [\<lparr>name = nm, createFunc = cf\<rparr>],
                           curr := (if elems (m_registry s) = [] then 0 else curr (m_registry s))\<rparr>
      else m_registry s)"
proof (cases "newOk s")
  case Nil
  then show ?thesis
    by (simp add: registerPlugin_def operator_new_def nextAllocsOk_def LinkedList_append_def
          LOG_def)
next
  case (Cons a as)
  show ?thesis
  proof (cases as)
    case Nil
    with Cons show ?thesis
      by (cases a)
         (simp_all add: registerPlugin_def operator_new_def nextAllocsOk_def
            LinkedList_append_def LOG_def)
  next
    case (Cons b bs)
    with \<open>newOk s = a # as\<close> show ?thesis
      by (cases a; cases b)
         (simp_all add: registerPlugin_def operator_new_def nextAllocsOk_def
            LinkedList_append_def LOG_def)
  qed
qed

lemma registerPlugin_error_logged:
  "\<not> nextAllocsOk 2 s \<Longrightarrow>
     logs (registerPlugin nm cf s) = logs s @ [(LOGLEVEL_ERROR, CouldntAddToRegistry nm)]"
proof (cases "newOk s")
  case Nil
  assume "\<not> nextAllocsOk 2 s"
  with Nil show ?thesis by (simp add: nextAllocsOk_def)
next
  case (Cons a as)
  assume bad: "\<not> nextAllocsOk 2 s"
  show ?thesis
  proof (cases as)
    case Nil
    with Cons bad show ?thesis
      by (cases a)
         (simp_all add: registerPlugin_def operator_new_def nextAllocsOk_def
            LinkedList_append_def LOG_def)
  next
    case (Cons b bs)
    with \<open>newOk s = a # as\<close> bad show ?thesis
      by (cases a; cases b)
         (simp_all add: registerPlugin_def operator_new_def nextAllocsOk_def
            LinkedList_append_def LOG_def)
  qed
qed

text \<open>
  C3, as the code has it: \<^verbatim>\<open>registerPlugin\<close> looks at no name. When the entry and its list
  node can be allocated the entry is appended, also under a name that is registered
  already, and \<^verbatim>\<open>findFirst\<close>/\<^verbatim>\<open>findNext\<close> list the names in the order of registration.
  When an allocation fails the registry stays as it was and the failure is logged as an
  error.
\<close>

theorem registerPlugin_appends_in_order:
  "(nextAllocsOk 2 s \<longrightarrow>
      elems (m_registry (registerPlugin nm cf s)) =
        elems (m_registry s) @ [\<lparr>name = nm, createFunc = cf\<rparr>] \<and>
      listNames (registerPlugin nm cf s) = listNames s @ [nm]) \<and>
   (\<not> nextAllocsOk 2 s \<longrightarrow>
      m_registry (registerPlugin nm cf s) = m_registry s \<and>
      listNames (registerPlugin nm cf s) = listNames s \<and>
      logs (registerPlugin nm cf s) = logs s @ [(LOGLEVEL_ERROR, CouldntAddToRegistry nm)])"
  by (simp add: listNames_registry registerPlugin_registry registerPlugin_error_logged)

theorem registerPlugin_appends_in_order_witness:
  "nextAllocsOk 2 (registerPlugin ''Clock'' 1 (boot 4 ([] :: JsonSlot list))) \<and>
   listNames (registerPlugin ''Clock'' 2 (registerPlugin ''Clock'' 1 (boot 4 ([] :: JsonSlot list))))
     = [''Clock'', ''Clock''] \<and>
   \<not> nextAllocsOk 2 ((boot 4 ([] :: JsonSlot list))\<lparr>newOk := [True, False]\<rparr>) \<and>
   m_registry (registerPlugin ''Clock'' 1 ((boot 4 ([] :: JsonSlot list))\<lparr>newOk := [True, False]\<rparr>))
     = \<lparr>elems = [], curr = 0\<rparr> \<and>
   logs (registerPlugin ''Clock'' 1 ((boot 4 ([] :: JsonSlot list))\<lparr>newOk := [True, False]\<rparr>))
     = [(LOGLEVEL_ERROR, CouldntAddToRegistry ''Clock'')]"
  using registerPlugin_appends_in_order
          [of "registerPlugin ''Clock'' 1 (boot 4 ([] :: JsonSlot list))" "''Clock''" 2]
        registerPlugin_appends_in_order
          [of "(boot 4 ([] :: JsonSlot list))\<lparr>newOk := [True, False]\<rparr>" "''Clock''" 1]
  by (simp add: eval_defs nextAllocsOk_def listNames_def findFirst_def findNext_def)

text \<open>
  C3 as it is stated fails: after \<^verbatim>\<open>Clock\<close> has been registered, registering the name
  again with another create function changes the registry.
\<close>

theorem register_twice_counterexample:
  "m_registry (registerPlugin ''Clock'' 2 (registerPlugin ''Clock'' 1 (boot 4 ([] :: JsonSlot list))))
     \<noteq> m_registry (registerPlugin ''Clock'' 1 (boot 4 ([] :: JsonSlot list)))"
  by (simp add: eval_defs)

subsection \<open>Uninstalling\<close>

lemma indexOf_None: "indexOf x xs = None \<longleftrightarrow> x \<notin> set xs"
  by (induction xs) auto

lemma indexOf_Some: "indexOf x xs = Some i \<Longrightarrow> i < length xs \<and> xs ! i = x"
  by (induction xs arbitrary: i) (auto split: if_splits)

lemma indexOf_removeAt: "indexOf x xs = Some i \<Longrightarrow> removeAt i xs = remove1 x xs"
proof (induction xs arbitrary: i)
  case Nil
  then show ?case by simp
next
  case (Cons y ys)
  show ?case
  proof (cases "x = y")
    case True
    with Cons.prems show ?thesis by (simp add: removeAt_def)
  next
    case False
    with Cons.prems obtain j where j: "indexOf x ys = Some j" "i = Suc j"
      by auto
    from Cons.IH [OF j(1)] False j(2) show ?thesis
      by (simp add: removeAt_def)
  qed
qed

lemma uninstall_not_tracked:
  "p \<notin> set (elems (m_plugins s)) \<Longrightarrow>
     uninstall (Some p) s = (False, LOG LOGLEVEL_WARNING (PluginNotFoundInList p) s)"
  by (simp add: uninstall_def LinkedList_find_def indexOf_None [THEN iffD2])

lemma uninstall_released:
  assumes "p \<in> set (elems (m_plugins s))"
    and "fst (DisplayMgr_uninstallPlugin p (m_slots s))"
  shows "fst (uninstall (Some p) s)"
    and "elems (m_plugins (snd (uninstall (Some p) s))) = remove1 p (elems (m_plugins s))"
    and "webInterfaces (snd (uninstall (Some p) s)) =
           filter (\<lambda>(q, uri). q \<noteq> p) (webInterfaces s)"
    and "m_slots (snd (uninstall (Some p) s)) = snd (DisplayMgr_uninstallPlugin p (m_slots s))"
proof -
  from assms(1) obtain i where i: "indexOf p (elems (m_plugins s)) = Some i"
    using indexOf_None [of p "elems (m_plugins s)"] by (cases "indexOf p (elems (m_plugins s))") auto
  obtain slots where dm: "DisplayMgr_uninstallPlugin p (m_slots s) = (True, slots)"
    using assms(2) by (cases "DisplayMgr_uninstallPlugin p (m_slots s)") auto
  have il: "i < length (elems (m_plugins s))"
    using indexOf_Some [OF i] by simp
  show "fst (uninstall (Some p) s)"
    by (simp add: uninstall_def LinkedList_find_def i dm Let_def)
  show "elems (m_plugins (snd (uninstall (Some p) s))) = remove1 p (elems (m_plugins s))"
    using il indexOf_removeAt [OF i]
    by (simp add: uninstall_def LinkedList_find_def i dm Let_def unregisterWebInterface_def
          LinkedList_removeSelected_def)
  show "webInterfaces (snd (uninstall (Some p) s)) =
          filter (\<lambda>(q, uri). q \<noteq> p) (webInterfaces s)"
    by (simp add: uninstall_def LinkedList_find_def i dm Let_def unregisterWebInterface_def)
  show "m_slots (snd (uninstall (Some p) s)) = snd (DisplayMgr_uninstallPlugin p (m_slots s))"
    by (simp add: uninstall_def LinkedList_find_def i dm Let_def unregisterWebInterface_def)
qed

lemma uninstall_refused:
  assumes "p \<in> set (elems (m_plugins s))"
    and "\<not> fst (DisplayMgr_uninstallPlugin p (m_slots s))"
  shows "\<exists>i. uninstall (Some p) s = (False, s\<lparr>m_plugins := (m_plugins s)\<lparr>curr := i\<rparr>\<rparr>)"
proof -
  from assms(1) obtain i where i: "indexOf p (elems (m_plugins s)) = Some i"
    using indexOf_None [of p "elems (m_plugins s)"] by (cases "indexOf p (elems (m_plugins s))") auto
  have none: "indexOf (Some p) (m_slots s) = None"
    using assms(2) by (simp add: DisplayMgr_uninstallPlugin_def split: option.splits)
  have "uninstall (Some p) s = (False, s\<lparr>m_plugins := (m_plugins s)\<lparr>curr := i\<rparr>\<rparr>)"
    by (simp add: uninstall_def LinkedList_find_def i DisplayMgr_uninstallPlugin_def none Let_def)
  then show ?thesis ..
qed

text \<open>
  C5: \<^verbatim>\<open>uninstall\<close> fails for \<^verbatim>\<open>nullptr\<close> and for a plugin that is not in the list of active
  plugins, changing nothing but the log. For a tracked plugin the display manager is asked
  first. When it releases the slot, the web interface is unregistered and the plugin
  leaves the active list. When it refuses, \<^verbatim>\<open>uninstall\<close> fails and the active plugins, the
  web interfaces and the slot table are what they were.
\<close>

theorem uninstall_all_or_nothing:
  "uninstall None s = (False, s) \<and>
   (p \<notin> set (elems (m_plugins s)) \<longrightarrow>
      uninstall (Some p) s = (False, LOG LOGLEVEL_WARNING (PluginNotFoundInList p) s)) \<and>
   (p \<in> set (elems (m_plugins s)) \<and> fst (DisplayMgr_uninstallPlugin p (m_slots s)) \<longrightarrow>
      fst (uninstall (Some p) s) \<and>
      elems (m_plugins (snd (uninstall (Some p) s))) = remove1 p (elems (m_plugins s)) \<and>
      webInterfaces (snd (uninstall (Some p) s)) =
        filter (\<lambda>(q, uri). q \<noteq> p) (webInterfaces s) \<and>
      m_slots (snd (uninstall (Some p) s)) = snd (DisplayMgr_uninstallPlugin p (m_slots s))) \<and>
   (p \<in> set (elems (m_plugins s)) \<and> \<not> fst (DisplayMgr_uninstallPlugin p (m_slots s)) \<longrightarrow>
      \<not> fst (uninstall (Some p) s) \<and>
      elems (m_plugins (snd (uninstall (Some p) s))) = elems (m_plugins s) \<and>
      webInterfaces (snd (uninstall (Some p) s)) = webInterfaces s \<and>
      m_slots (snd (uninstall (Some p) s)) = m_slots s \<and>
      heap (snd (uninstall (Some p) s)) = heap s \<and>
      logs (snd (uninstall (Some p) s)) = logs s)"
proof (intro conjI impI)
  show "uninstall None s = (False, s)"
    by (simp add: uninstall_def)
next
  assume "p \<notin> set (elems (m_plugins s))"
  then show "uninstall (Some p) s = (False, LOG LOGLEVEL_WARNING (PluginNotFoundInList p) s)"
    by (rule uninstall_not_tracked)
next
  assume a: "p \<in> set (elems (m_plugins s)) \<and> fst (DisplayMgr_uninstallPlugin p (m_slots s))"
  then show "fst (uninstall (Some p) s)"
    and "elems (m_plugins (snd (uninstall (Some p) s))) = remove1 p (elems (m_plugins s))"
    and "webInterfaces (snd (uninstall (Some p) s)) =
           filter (\<lambda>(q, uri). q \<noteq> p) (webInterfaces s)"
    and "m_slots (snd (uninstall (Some p) s)) = snd (DisplayMgr_uninstallPlugin p (m_slots s))"
    by (simp_all add: uninstall_released)
next
  assume a: "p \<in> set (elems (m_plugins s)) \<and> \<not> fst (DisplayMgr_uninstallPlugin p (m_slots s))"
  then obtain i where
    u: "uninstall (Some p) s = (False, s\<lparr>m_plugins := (m_plugins s)\<lparr>curr := i\<rparr>\<rparr>)"
    using uninstall_refused [of p s] by blast
  show "\<not> fst (uninstall (Some p) s)"
    and "elems (m_plugins (snd (uninstall (Some p) s))) = elems (m_plugins s)"
    and "webInterfaces (snd (uninstall (Some p) s)) = webInterfaces s"
    and "m_slots (snd (uninstall (Some p) s)) = m_slots s"
    and "heap (snd (uninstall (Some p) s)) = heap s"
    and "logs (snd (uninstall (Some p) s)) = logs s"
    by (simp_all add: u)
qed

subsection \<open>A failed install leaves nothing behind\<close>

lemma firstFree_Some: "firstFree xs = Some i \<Longrightarrow> i < length xs \<and> xs ! i = None"
  by (induction xs arbitrary: i) (auto split: option.splits)

lemma indexOf_update_fresh:
  "x \<notin> set xs \<Longrightarrow> i < length xs \<Longrightarrow> indexOf x (xs[i := x]) = Some i"
proof (induction xs arbitrary: i)
  case Nil
  then show ?case by simp
next
  case (Cons y ys)
  then show ?case by (cases i) auto
qed

lemma place_then_release:
  assumes "Some p \<notin> set slots" and "i < length slots" and "slots ! i = None"
  shows "snd (DisplayMgr_uninstallPlugin p (slots[i := Some p])) = slots"
proof -
  have "indexOf (Some p) (slots[i := Some p]) = Some i"
    using assms(1,2) by (rule indexOf_update_fresh)
  moreover have "slots[i := None] = slots"
    using assms(3) by (metis list_update_id)
  ultimately show ?thesis
    by (simp add: DisplayMgr_uninstallPlugin_def)
qed

lemma installed_of_operator_new:
  "operator_new s = (ok, s1) \<Longrightarrow> installed_of s1 = installed_of s \<and> nextAddr s1 = nextAddr s"
  by (auto simp: operator_new_def installed_of_def split: list.splits)

lemma installToSlot_failed:
  assumes "Some p \<notin> set (m_slots s)" and "SLOT_ID_INVALID \<noteq> slotId"
    and "installToSlot (Some p) slotId s = (False, s')"
  shows "installed_of s' = installed_of s"
proof (cases "unat slotId < length (m_slots s) \<and> m_slots s ! unat slotId = None")
  case False
  then have dm: "DisplayMgr_installPlugin p slotId (m_slots s) = (SLOT_ID_INVALID, m_slots s)"
    by (auto simp: DisplayMgr_installPlugin_def)
  show ?thesis
    using assms(3) by (auto simp: installToSlot_def dm Let_def LOG_def installed_of_def)
next
  case True
  let ?slots = "(m_slots s)[unat slotId := Some p]"
  have dm: "DisplayMgr_installPlugin p slotId (m_slots s) = (slotId, ?slots)"
    using True by (simp add: DisplayMgr_installPlugin_def)
  obtain ok s2 where n: "operator_new (s\<lparr>m_slots := ?slots\<rparr>) = (ok, s2)"
    by (cases "operator_new (s\<lparr>m_slots := ?slots\<rparr>)")
  have s2: "installed_of s2 = installed_of (s\<lparr>m_slots := ?slots\<rparr>)"
    using installed_of_operator_new [OF n] by simp
  have rel: "snd (DisplayMgr_uninstallPlugin p ?slots) = m_slots s"
    using assms(1) True by (simp add: place_then_release)
  from assms(2,3) s2 rel show ?thesis
    by (cases ok)
       (auto simp: installToSlot_def dm n Let_def LOG_def installed_of_def
          LinkedList_append_def registerWebInterface_def)
qed

lemma small_index_valid:
  "i < 255 \<Longrightarrow> SLOT_ID_INVALID \<noteq> (of_nat i :: uint8_t)"
proof
  assume i: "i < 255" and eq: "SLOT_ID_INVALID = (of_nat i :: uint8_t)"
  have "unat (of_nat i :: uint8_t) = i"
    using i by (simp add: unat_of_nat)
  with eq i show False
    by (simp add: SLOT_ID_INVALID_def)
qed

lemma installToAutoSlot_failed:
  assumes "Some p \<notin> set (m_slots s)" and "length (m_slots s) \<le> 255"
    and "installToAutoSlot (Some p) s = (False, s')"
  shows "installed_of s' = installed_of s"
proof (cases "firstFree (m_slots s)")
  case None
  then have dm: "DisplayMgr_installPlugin_auto p (m_slots s) = (SLOT_ID_INVALID, m_slots s)"
    by (simp add: DisplayMgr_installPlugin_auto_def)
  show ?thesis
    using assms(3) by (auto simp: installToAutoSlot_def dm Let_def LOG_def installed_of_def)
next
  case (Some i)
  let ?slots = "(m_slots s)[i := Some p]"
  have i: "i < length (m_slots s)" "m_slots s ! i = None"
    using firstFree_Some [OF Some] by simp_all
  have dm: "DisplayMgr_installPlugin_auto p (m_slots s) = (of_nat i, ?slots)"
    using Some by (simp add: DisplayMgr_installPlugin_auto_def)
  have valid: "SLOT_ID_INVALID \<noteq> (of_nat i :: uint8_t)"
    using i(1) assms(2) by (intro small_index_valid) simp
  obtain ok s2 where n: "operator_new (s\<lparr>m_slots := ?slots\<rparr>) = (ok, s2)"
    by (cases "operator_new (s\<lparr>m_slots := ?slots\<rparr>)")
  have s2: "installed_of s2 = installed_of (s\<lparr>m_slots := ?slots\<rparr>)"
    using installed_of_operator_new [OF n] by simp
  have rel: "snd (DisplayMgr_uninstallPlugin p ?slots) = m_slots s"
    using assms(1) i by (simp add: place_then_release)
  from assms(3) s2 rel valid show ?thesis
    by (cases ok)
       (auto simp: installToAutoSlot_def dm n Let_def LOG_def installed_of_def
          LinkedList_append_def registerWebInterface_def)
qed

lemma createPlugin_effect:
  assumes "createPlugin cf nm uid s = (plugin, s1)"
  shows "m_slots s1 = m_slots s \<and> m_plugins s1 = m_plugins s \<and>
         webInterfaces s1 = webInterfaces s \<and> enabled s1 = enabled s \<and>
         (case plugin of
            None \<Rightarrow> heap s1 = heap s \<and> nextAddr s1 = nextAddr s
          | Some p \<Rightarrow> heap s1 = heap s @ [p] \<and> addr p = nextAddr s \<and>
                      nextAddr s1 = Suc (nextAddr s) \<and> getUID p = uid \<and> getName p = nm)"
proof -
  obtain ok s0 where n: "operator_new s = (ok, s0)"
    by (cases "operator_new s")
  have "installed_of s0 = installed_of s \<and> nextAddr s0 = nextAddr s"
    using installed_of_operator_new [OF n] .
  with assms show ?thesis
    by (cases ok) (auto simp: createPlugin_def n Let_def installed_of_def)
qed

lemma fresh_addrs_not_held:
  assumes "fresh_addrs s" and "addr p = nextAddr s"
  shows "p \<notin> set (heap s)" and "Some p \<notin> set (m_slots s)"
proof -
  show "p \<notin> set (heap s)"
    using assms by (auto simp: fresh_addrs_def list_all_iff)
  show "Some p \<notin> set (m_slots s)"
  proof
    assume "Some p \<in> set (m_slots s)"
    with assms(1) have "handedOut (nextAddr s) (Some p)"
      by (auto simp: fresh_addrs_def list_all_iff)
    with assms(2) show False by simp
  qed
qed

lemma install_uid_failed:
  assumes fresh: "fresh_addrs s"
    and fail: "install_uid nm uid slotId s = (None, s')"
  shows "installed_of s' = installed_of s"
proof (cases "elems (m_registry s) = []")
  case True
  with fail show ?thesis
    by (auto simp: install_uid_def LinkedList_selectFirstElement_def installed_of_def)
next
  case False
  let ?reg = "(m_registry s)\<lparr>curr := 0\<rparr>"
  obtain isFound entry reg' where
    w: "install_while nm False (LinkedList_current ?reg) ?reg = (isFound, entry, reg')"
    by (cases "install_while nm False (LinkedList_current ?reg) ?reg")
  let ?s1 = "s\<lparr>m_registry := reg'\<rparr>"
  have s1: "installed_of ?s1 = installed_of s"
    by (simp add: installed_of_def)
  show ?thesis
  proof (cases "isFound \<and> entry \<noteq> None")
    case False
    with fail \<open>elems (m_registry s) \<noteq> []\<close> show ?thesis
      by (auto simp: install_uid_def LinkedList_selectFirstElement_def w Let_def
            installed_of_def split: option.splits)
  next
    case True
    then obtain e where e: "entry = Some e" and found: "isFound"
      by auto
    obtain plugin s2 where c: "createPlugin (createFunc e) (name e) uid ?s1 = (plugin, s2)"
      by (cases "createPlugin (createFunc e) (name e) uid ?s1")
    note ce = createPlugin_effect [OF c]
    show ?thesis
    proof (cases plugin)
      case None
      have "installed_of s2 = installed_of s"
        using ce None by (simp add: installed_of_def)
      with fail \<open>elems (m_registry s) \<noteq> []\<close> show ?thesis
        by (auto simp: install_uid_def LinkedList_selectFirstElement_def w e found c None
              Let_def installToAutoSlot_def installToSlot_def operator_delete_def
              split: if_splits)
    next
      case (Some p)
      have held: "p \<notin> set (heap s)" "Some p \<notin> set (m_slots s2)"
        using fresh_addrs_not_held [OF fresh, of p] ce Some by simp_all
      have len: "length (m_slots s2) \<le> 255"
        using fresh ce by (simp add: fresh_addrs_def)
      have heap2: "heap s2 = heap s @ [p]"
        using ce Some by simp
      have rest2: "m_slots s2 = m_slots s" "m_plugins s2 = m_plugins s"
        "webInterfaces s2 = webInterfaces s" "enabled s2 = enabled s"
        using ce by simp_all
      have del: "installed_of (operator_delete (Some p) s3) = installed_of s"
        if "installed_of s3 = installed_of s2" for s3 :: "'a world"
        using that held(1) heap2 rest2
        by (simp add: installed_of_def operator_delete_def)
      show ?thesis
      proof (cases "SLOT_ID_INVALID = slotId")
        case True
        obtain ok s3 where a: "installToAutoSlot (Some p) s2 = (ok, s3)"
          by (cases "installToAutoSlot (Some p) s2")
        from fail \<open>elems (m_registry s) \<noteq> []\<close> have "\<not> ok" and s': "s' = operator_delete (Some p) s3"
          by (auto simp: install_uid_def LinkedList_selectFirstElement_def w e found c Some
                True a Let_def split: bool.splits)
        with a have "installed_of s3 = installed_of s2"
          using installToAutoSlot_failed [OF held(2) len] by simp
        then show ?thesis
          unfolding s' by (rule del)
      next
        case False
        obtain ok s3 where a: "installToSlot (Some p) slotId s2 = (ok, s3)"
          by (cases "installToSlot (Some p) slotId s2")
        from fail \<open>elems (m_registry s) \<noteq> []\<close> have "\<not> ok" and s': "s' = operator_delete (Some p) s3"
          by (auto simp: install_uid_def LinkedList_selectFirstElement_def w e found c Some
                False a Let_def split: bool.splits)
        with a have "installed_of s3 = installed_of s2"
          using installToSlot_failed [OF held(2) False] by simp
        then show ?thesis
          unfolding s' by (rule del)
      qed
    qed
  qed
qed

lemma install_while_None: "install_while nm isFound None reg = (isFound, None, reg)"
  by (simp add: install_while.simps)

lemma install_while_True: "install_while nm True entry reg = (True, entry, reg)"
  by (simp add: install_while.simps split: option.splits)

lemma install_while_hit:
  "nm = name e \<Longrightarrow> install_while nm False (Some e) reg = (True, Some e, reg)"
  by (subst install_while.simps) (simp add: install_while_True)

lemma install_while_miss:
  "nm \<noteq> name e \<Longrightarrow>
     install_while nm False (Some e) reg =
       (case LinkedList_next reg of
          (False, reg') \<Rightarrow> (False, None, reg')
        | (True, reg') \<Rightarrow> install_while nm False (LinkedList_current reg') reg')"
  by (subst install_while.simps) (simp add: install_while_None split: prod.splits bool.splits)

lemma install_while_resolves:
  "curr reg < length (elems reg) \<Longrightarrow>
   install_while nm False (Some (elems reg ! curr reg)) reg = (isFound, entry, reg') \<Longrightarrow>
   isFound = (nm \<in> set (map name (drop (curr reg) (elems reg)))) \<and>
   entry = find (\<lambda>e. name e = nm) (drop (curr reg) (elems reg)) \<and>
   elems reg' = elems reg"
proof (induction "length (elems reg) - curr reg" arbitrary: reg)
  case 0
  then show ?case by simp
next
  case (Suc n)
  let ?e = "elems reg ! curr reg"
  have dr: "drop (curr reg) (elems reg) = ?e # drop (Suc (curr reg)) (elems reg)"
    using Suc.prems(1) by (simp add: Cons_nth_drop_Suc)
  show ?case
  proof (cases "nm = name ?e")
    case True
    then have "install_while nm False (Some ?e) reg = (True, Some ?e, reg)"
      by (rule install_while_hit)
    then have "(isFound, entry, reg') = (True, Some ?e, reg)"
      by (rule trans [OF Suc.prems(2) [symmetric]])
    then have "isFound" "entry = Some ?e" "reg' = reg"
      by simp_all
    then show ?thesis
      using True by (simp add: dr)
  next
    case False
    show ?thesis
    proof (cases "Suc (curr reg) < length (elems reg)")
      case last: False
      with False have "install_while nm False (Some ?e) reg = (False, None, reg)"
        by (simp add: install_while_miss LinkedList_next_def)
      then have "(isFound, entry, reg') = (False, None, reg)"
        by (rule trans [OF Suc.prems(2) [symmetric]])
      then have "\<not> isFound" "entry = None" "reg' = reg"
        by simp_all
      then show ?thesis
        using False last by (simp add: dr)
    next
      case more: True
      let ?reg = "reg\<lparr>curr := Suc (curr reg)\<rparr>"
      have step: "install_while nm False (Some (elems ?reg ! curr ?reg)) ?reg = (isFound, entry, reg')"
        using Suc.prems(2) False more
        by (simp add: install_while_miss LinkedList_next_def LinkedList_current_def)
      have "n = length (elems ?reg) - curr ?reg"
        using Suc.hyps(2) by simp
      from Suc.hyps(1) [OF this _ step] more False show ?thesis
        by (simp add: dr)
    qed
  qed
qed

lemma nextAddr_installToSlot:
  "nextAddr (snd (installToSlot plugin slotId s)) = nextAddr s"
proof (cases plugin)
  case None
  then show ?thesis by (simp add: installToSlot_def)
next
  case (Some p)
  obtain placed slots where dm: "DisplayMgr_installPlugin p slotId (m_slots s) = (placed, slots)"
    by (cases "DisplayMgr_installPlugin p slotId (m_slots s)")
  obtain ok s2 where n: "operator_new (s\<lparr>m_slots := slots\<rparr>) = (ok, s2)"
    by (cases "operator_new (s\<lparr>m_slots := slots\<rparr>)")
  have "nextAddr s2 = nextAddr s"
    using installed_of_operator_new [OF n] by simp
  then show ?thesis
    by (cases ok)
       (simp_all add: installToSlot_def Some dm n Let_def LOG_def LinkedList_append_def
          registerWebInterface_def)
qed

lemma nextAddr_installToAutoSlot:
  "nextAddr (snd (installToAutoSlot plugin s)) = nextAddr s"
proof (cases plugin)
  case None
  then show ?thesis by (simp add: installToAutoSlot_def)
next
  case (Some p)
  obtain placed slots where dm: "DisplayMgr_installPlugin_auto p (m_slots s) = (placed, slots)"
    by (cases "DisplayMgr_installPlugin_auto p (m_slots s)")
  obtain ok s2 where n: "operator_new (s\<lparr>m_slots := slots\<rparr>) = (ok, s2)"
    by (cases "operator_new (s\<lparr>m_slots := slots\<rparr>)")
  have "nextAddr s2 = nextAddr s"
    using installed_of_operator_new [OF n] by simp
  then show ?thesis
    by (cases ok)
       (simp_all add: installToAutoSlot_def Some dm n Let_def LOG_def LinkedList_append_def
          registerWebInterface_def)
qed

lemma createPlugin_allocated:
  "nextAllocsOk 1 s \<Longrightarrow>
     \<exists>p s1. createPlugin cf nm uid s = (Some p, s1) \<and> nextAddr s1 = Suc (nextAddr s)"
  by (cases "newOk s")
     (auto simp: createPlugin_def operator_new_def nextAllocsOk_def Let_def)

lemma install_uid_constructs:
  assumes "nm \<in> set (map name (elems (m_registry s)))" and "nextAllocsOk 1 s"
  shows "nextAddr (snd (install_uid nm uid slotId s)) = Suc (nextAddr s)"
proof -
  from assms(1) have ne: "elems (m_registry s) \<noteq> []"
    by auto
  let ?reg = "(m_registry s)\<lparr>curr := 0\<rparr>"
  have cur: "LinkedList_current ?reg = Some (elems (m_registry s) ! 0)"
    using ne by (simp add: LinkedList_current_def)
  obtain isFound entry reg' where
    w: "install_while nm False (Some (elems (m_registry s) ! 0)) ?reg = (isFound, entry, reg')"
    by (cases "install_while nm False (Some (elems (m_registry s) ! 0)) ?reg")
  have res: "isFound = (nm \<in> set (map name (elems (m_registry s))))"
    "entry = find (\<lambda>e. name e = nm) (elems (m_registry s))"
    using install_while_resolves [of ?reg nm isFound entry reg'] w ne by simp_all
  from res(1) assms(1) have found: "isFound"
    by simp
  have "find (\<lambda>e. name e = nm) (elems (m_registry s)) \<noteq> None"
    using assms(1) by (auto simp: find_None_iff)
  with res(2) have "entry \<noteq> None"
    by simp
  then obtain e where e: "entry = Some e"
    by auto
  let ?s1 = "s\<lparr>m_registry := reg'\<rparr>"
  have "nextAllocsOk 1 ?s1"
    using assms(2) by (simp add: nextAllocsOk_def)
  then obtain p s2 where
    c: "createPlugin (createFunc e) (name e) uid ?s1 = (Some p, s2)" "nextAddr s2 = Suc (nextAddr s)"
    using createPlugin_allocated [of ?s1 "createFunc e" "name e" uid] by auto
  have del: "nextAddr (operator_delete plugin s3) = nextAddr s3" for plugin and s3 :: "'a world"
    by (simp add: operator_delete_def split: option.splits)
  have a: "nextAddr (snd (installToAutoSlot (Some p) s2)) = Suc (nextAddr s)"
    by (simp add: nextAddr_installToAutoSlot c(2))
  have b: "nextAddr (snd (installToSlot (Some p) slotId s2)) = Suc (nextAddr s)"
    by (simp add: nextAddr_installToSlot c(2))
  show ?thesis
  proof (cases "SLOT_ID_INVALID = slotId")
    case True
    obtain ok s3 where i: "installToAutoSlot (Some p) s2 = (ok, s3)"
      by (cases "installToAutoSlot (Some p) s2")
    with a have "nextAddr s3 = Suc (nextAddr s)" by simp
    then show ?thesis
      using ne True
      by (cases ok)
         (simp_all add: install_uid_def LinkedList_selectFirstElement_def cur w e found c(1) i del)
  next
    case False
    obtain ok s3 where i: "installToSlot (Some p) slotId s2 = (ok, s3)"
      by (cases "installToSlot (Some p) slotId s2")
    with b have "nextAddr s3 = Suc (nextAddr s)" by simp
    then show ?thesis
      using ne False
      by (cases ok)
         (simp_all add: install_uid_def LinkedList_selectFirstElement_def cur w e found c(1) i del)
  qed
qed

subsection \<open>When install fails\<close>

lemma nextAllocsOk_1:
  "nextAllocsOk (Suc 0) s = (case newOk s of [] \<Rightarrow> True | ok # rest \<Rightarrow> ok)"
  by (cases "newOk s") (simp_all add: nextAllocsOk_def)

lemma operator_new_outcome:
  "fst (operator_new s) = nextAllocsOk 1 s" "newOk (snd (operator_new s)) = tl (newOk s)"
  by (cases "newOk s"; simp add: operator_new_def nextAllocsOk_def)+

lemma nextAllocsOk_2:
  "nextAllocsOk 2 s = (nextAllocsOk 1 s \<and> (case tl (newOk s) of [] \<Rightarrow> True | ok # rest \<Rightarrow> ok))"
proof (cases "newOk s")
  case Nil
  then show ?thesis by (simp add: nextAllocsOk_def)
next
  case (Cons a as)
  then show ?thesis
    by (cases as) (auto simp: nextAllocsOk_def numeral_2_eq_2)
qed

lemma installToSlot_succeeds_iff:
  assumes "SLOT_ID_INVALID \<noteq> slotId"
  shows "fst (installToSlot (Some p) slotId s) =
           (unat slotId < length (m_slots s) \<and> m_slots s ! unat slotId = None \<and>
            nextAllocsOk 1 s)"
proof (cases "unat slotId < length (m_slots s) \<and> m_slots s ! unat slotId = None")
  case False
  then have dm: "DisplayMgr_installPlugin p slotId (m_slots s) = (SLOT_ID_INVALID, m_slots s)"
    by (auto simp: DisplayMgr_installPlugin_def)
  show ?thesis
    using False by (simp add: installToSlot_def dm Let_def)
next
  case True
  let ?slots = "(m_slots s)[unat slotId := Some p]"
  have dm: "DisplayMgr_installPlugin p slotId (m_slots s) = (slotId, ?slots)"
    using True by (simp add: DisplayMgr_installPlugin_def)
  obtain ok s2 where n: "operator_new (s\<lparr>m_slots := ?slots\<rparr>) = (ok, s2)"
    by (cases "operator_new (s\<lparr>m_slots := ?slots\<rparr>)")
  have "ok = nextAllocsOk 1 (s\<lparr>m_slots := ?slots\<rparr>)"
    using operator_new_outcome(1) [of "s\<lparr>m_slots := ?slots\<rparr>"] n by simp
  then have ok: "ok = nextAllocsOk 1 s"
    by (simp add: nextAllocsOk_def)
  show ?thesis
    using assms True ok
    by (cases ok)
       (simp_all add: installToSlot_def dm n Let_def LinkedList_append_def)
qed

lemma installToAutoSlot_succeeds_iff:
  assumes "length (m_slots s) \<le> 255"
  shows "fst (installToAutoSlot (Some p) s) =
           (firstFree (m_slots s) \<noteq> None \<and> nextAllocsOk 1 s)"
proof (cases "firstFree (m_slots s)")
  case None
  then have dm: "DisplayMgr_installPlugin_auto p (m_slots s) = (SLOT_ID_INVALID, m_slots s)"
    by (simp add: DisplayMgr_installPlugin_auto_def)
  show ?thesis
    using None by (simp add: installToAutoSlot_def dm Let_def)
next
  case (Some i)
  let ?slots = "(m_slots s)[i := Some p]"
  have i: "i < length (m_slots s)"
    using firstFree_Some [OF Some] by simp
  have dm: "DisplayMgr_installPlugin_auto p (m_slots s) = (of_nat i, ?slots)"
    using Some by (simp add: DisplayMgr_installPlugin_auto_def)
  have valid: "SLOT_ID_INVALID \<noteq> (of_nat i :: uint8_t)"
    using i assms by (intro small_index_valid) simp
  obtain ok s2 where n: "operator_new (s\<lparr>m_slots := ?slots\<rparr>) = (ok, s2)"
    by (cases "operator_new (s\<lparr>m_slots := ?slots\<rparr>)")
  have "ok = nextAllocsOk 1 (s\<lparr>m_slots := ?slots\<rparr>)"
    using operator_new_outcome(1) [of "s\<lparr>m_slots := ?slots\<rparr>"] n by simp
  then have ok: "ok = nextAllocsOk 1 s"
    by (simp add: nextAllocsOk_def)
  show ?thesis
    using valid Some ok
    by (cases ok)
       (simp_all add: installToAutoSlot_def dm n Let_def LinkedList_append_def)
qed

lemma createPlugin_outcome:
  assumes "createPlugin cf nm uid s = (plugin, s1)"
  shows "(plugin \<noteq> None) = nextAllocsOk 1 s" and "newOk s1 = tl (newOk s)"
proof -
  obtain ok s0 where n: "operator_new s = (ok, s0)"
    by (cases "operator_new s")
  have o1: "ok = nextAllocsOk 1 s"
    using operator_new_outcome(1) [of s] by (simp add: n)
  have o2: "newOk s0 = tl (newOk s)"
    using operator_new_outcome(2) [of s] by (simp add: n)
  note o = o1 o2
  from assms o show "(plugin \<noteq> None) = nextAllocsOk 1 s"
    by (cases ok) (auto simp: createPlugin_def n Let_def)
  from assms o show "newOk s1 = tl (newOk s)"
    by (cases ok) (auto simp: createPlugin_def n Let_def)
qed

lemma install_uid_succeeds_iff:
  assumes "length (m_slots s) \<le> 255"
  shows "(fst (install_uid nm uid slotId s) \<noteq> None) =
           (nm \<in> set (map name (elems (m_registry s))) \<and> nextAllocsOk 2 s \<and>
            (if SLOT_ID_INVALID = slotId then firstFree (m_slots s) \<noteq> None
             else unat slotId < length (m_slots s) \<and> m_slots s ! unat slotId = None))"
proof (cases "elems (m_registry s) = []")
  case True
  then show ?thesis
    by (simp add: install_uid_def LinkedList_selectFirstElement_def)
next
  case ne: False
  let ?reg = "(m_registry s)\<lparr>curr := 0\<rparr>"
  have cur: "LinkedList_current ?reg = Some (elems (m_registry s) ! 0)"
    using ne by (simp add: LinkedList_current_def)
  obtain isFound entry reg' where
    w: "install_while nm False (Some (elems (m_registry s) ! 0)) ?reg = (isFound, entry, reg')"
    by (cases "install_while nm False (Some (elems (m_registry s) ! 0)) ?reg")
  have res: "isFound = (nm \<in> set (map name (elems (m_registry s))))"
    "entry = find (\<lambda>e. name e = nm) (elems (m_registry s))"
    using install_while_resolves [of ?reg nm isFound entry reg'] w ne by simp_all
  show ?thesis
  proof (cases isFound)
    case False
    with res(1) ne show ?thesis
      by (simp add: install_uid_def LinkedList_selectFirstElement_def cur w Let_def
            split: option.splits)
  next
    case found: True
    with res have "find (\<lambda>e. name e = nm) (elems (m_registry s)) \<noteq> None"
      by (auto simp: find_None_iff)
    with res(2) have "entry \<noteq> None"
      by simp
    then obtain e where e: "entry = Some e"
      by auto
    let ?s1 = "s\<lparr>m_registry := reg'\<rparr>"
    obtain created s2 where c: "createPlugin (createFunc e) (name e) uid ?s1 = (created, s2)"
      by (cases "createPlugin (createFunc e) (name e) uid ?s1")
    have a1: "nextAllocsOk 1 ?s1 = nextAllocsOk 1 s"
      by (simp add: nextAllocsOk_def)
    have co: "(created \<noteq> None) = nextAllocsOk 1 s" "newOk s2 = tl (newOk s)"
      using createPlugin_outcome [OF c] a1 by simp_all
    have slots2: "m_slots s2 = m_slots s"
      using createPlugin_effect [OF c] by simp
    have a2: "nextAllocsOk 2 s = (nextAllocsOk 1 s \<and> nextAllocsOk 1 s2)"
      by (simp add: nextAllocsOk_2 nextAllocsOk_1 co(2))
    show ?thesis
    proof (cases created)
      case None
      with co(1) have "\<not> nextAllocsOk 1 s"
        by simp
      with None found res(1) ne a2 show ?thesis
        by (simp add: install_uid_def LinkedList_selectFirstElement_def cur w e c Let_def
              installToAutoSlot_def installToSlot_def)
    next
      case (Some p)
      with co(1) have al: "nextAllocsOk 1 s"
        by simp
      show ?thesis
      proof (cases "SLOT_ID_INVALID = slotId")
        case auto: True
        obtain ok s3 where i: "installToAutoSlot (Some p) s2 = (ok, s3)"
          by (cases "installToAutoSlot (Some p) s2")
        have "ok = (firstFree (m_slots s) \<noteq> None \<and> nextAllocsOk 1 s2)"
          using installToAutoSlot_succeeds_iff [of s2 p] assms slots2 i by simp
        with found res(1) ne a2 al auto show ?thesis
          by (cases ok)
             (auto simp: install_uid_def LinkedList_selectFirstElement_def cur w e c Some i)
      next
        case explicit: False
        obtain ok s3 where i: "installToSlot (Some p) slotId s2 = (ok, s3)"
          by (cases "installToSlot (Some p) slotId s2")
        have "ok = (unat slotId < length (m_slots s) \<and> m_slots s ! unat slotId = None \<and>
                    nextAllocsOk 1 s2)"
          using installToSlot_succeeds_iff [OF explicit, of p s2] slots2 i by simp
        with found res(1) ne a2 al explicit show ?thesis
          by (cases ok)
             (auto simp: install_uid_def LinkedList_selectFirstElement_def cur w e c Some i)
      qed
    qed
  qed
qed

text \<open>
  C4: construction and placement are one step. \<^verbatim>\<open>install\<close> returns \<^verbatim>\<open>nullptr\<close> when the
  name is not registered, and, for a registered name, whenever the instance cannot be
  placed: with no slot given and no slot free, with a slot given that is out of range or
  occupied, and when the plugin object or the node of the active list cannot be
  allocated. In every other case it returns the plugin. Whenever it returns \<^verbatim>\<open>nullptr\<close>,
  the live plugin objects, the slot table, the active plugins, the web interfaces and the
  enabled plugins are exactly what they were before the call; and if the name is
  registered and the plugin object could be allocated, an object has been constructed
  (the next address has moved on), so it was destroyed again before the return.
\<close>

theorem failed_install_leaves_nothing:
  assumes "fresh_addrs s"
  shows
    "(nm \<notin> set (map name (elems (m_registry s))) \<longrightarrow>
        fst (install_uid nm uid slotId s) = None) \<and>
     (SLOT_ID_INVALID = slotId \<and> firstFree (m_slots s) = None \<longrightarrow>
        fst (install_uid nm uid slotId s) = None) \<and>
     (SLOT_ID_INVALID \<noteq> slotId \<and>
      \<not> (unat slotId < length (m_slots s) \<and> m_slots s ! unat slotId = None) \<longrightarrow>
        fst (install_uid nm uid slotId s) = None) \<and>
     (\<not> nextAllocsOk 2 s \<longrightarrow> fst (install_uid nm uid slotId s) = None) \<and>
     (nm \<in> set (map name (elems (m_registry s))) \<and> nextAllocsOk 2 s \<and>
      (if SLOT_ID_INVALID = slotId then firstFree (m_slots s) \<noteq> None
       else unat slotId < length (m_slots s) \<and> m_slots s ! unat slotId = None) \<longrightarrow>
        fst (install_uid nm uid slotId s) \<noteq> None) \<and>
     (fst (install_uid nm uid slotId s) = None \<longrightarrow>
        heap (snd (install_uid nm uid slotId s)) = heap s \<and>
        m_slots (snd (install_uid nm uid slotId s)) = m_slots s \<and>
        m_plugins (snd (install_uid nm uid slotId s)) = m_plugins s \<and>
        webInterfaces (snd (install_uid nm uid slotId s)) = webInterfaces s \<and>
        enabled (snd (install_uid nm uid slotId s)) = enabled s \<and>
        (nm \<in> set (map name (elems (m_registry s))) \<and> nextAllocsOk 1 s \<longrightarrow>
           nextAddr (snd (install_uid nm uid slotId s)) = Suc (nextAddr s)))"
proof -
  have len: "length (m_slots s) \<le> 255"
    using assms by (simp add: fresh_addrs_def)
  note iff = install_uid_succeeds_iff [OF len, of nm uid slotId]
  have clean: "installed_of (snd (install_uid nm uid slotId s)) = installed_of s"
    if "fst (install_uid nm uid slotId s) = None"
  proof -
    from that have "install_uid nm uid slotId s = (None, snd (install_uid nm uid slotId s))"
      by (metis prod.collapse)
    with assms show ?thesis
      by (rule install_uid_failed)
  qed
  have built: "nextAddr (snd (install_uid nm uid slotId s)) = Suc (nextAddr s)"
    if "nm \<in> set (map name (elems (m_registry s)))" and "nextAllocsOk 1 s"
    using that by (rule install_uid_constructs)
  show ?thesis
  proof (intro conjI impI)
    assume "nm \<notin> set (map name (elems (m_registry s)))"
    with iff show "fst (install_uid nm uid slotId s) = None"
      by blast
  next
    assume "SLOT_ID_INVALID = slotId \<and> firstFree (m_slots s) = None"
    with iff show "fst (install_uid nm uid slotId s) = None"
      by auto
  next
    assume "SLOT_ID_INVALID \<noteq> slotId \<and>
            \<not> (unat slotId < length (m_slots s) \<and> m_slots s ! unat slotId = None)"
    with iff show "fst (install_uid nm uid slotId s) = None"
      by auto
  next
    assume "\<not> nextAllocsOk 2 s"
    with iff show "fst (install_uid nm uid slotId s) = None"
      by blast
  next
    assume "nm \<in> set (map name (elems (m_registry s))) \<and> nextAllocsOk 2 s \<and>
            (if SLOT_ID_INVALID = slotId then firstFree (m_slots s) \<noteq> None
             else unat slotId < length (m_slots s) \<and> m_slots s ! unat slotId = None)"
    with iff show "fst (install_uid nm uid slotId s) \<noteq> None"
      by blast
  next
    assume "fst (install_uid nm uid slotId s) = None"
    from clean [OF this]
    show "heap (snd (install_uid nm uid slotId s)) = heap s"
      and "m_slots (snd (install_uid nm uid slotId s)) = m_slots s"
      and "m_plugins (snd (install_uid nm uid slotId s)) = m_plugins s"
      and "webInterfaces (snd (install_uid nm uid slotId s)) = webInterfaces s"
      and "enabled (snd (install_uid nm uid slotId s)) = enabled s"
      by (simp_all add: installed_of_def)
  next
    assume "nm \<in> set (map name (elems (m_registry s))) \<and> nextAllocsOk 1 s"
    then show "nextAddr (snd (install_uid nm uid slotId s)) = Suc (nextAddr s)"
      using built by blast
  qed
qed

subsection \<open>The scenario, evaluated\<close>

lemma liveWorld_eval:
  "liveWorld =
     \<lparr>m_registry = \<lparr>elems = [\<lparr>name = ''Clock'', createFunc = 1\<rparr>,
                              \<lparr>name = ''Weather'', createFunc = 2\<rparr>], curr = 1\<rparr>,
      m_plugins = \<lparr>elems = [clockPlugin, weatherPlugin], curr = 0\<rparr>,
      m_slots = [Some clockPlugin, Some weatherPlugin, None, None],
      webInterfaces = [(clockPlugin, ''/rest/api/v1/display/uid/7''),
                       (weatherPlugin, ''/rest/api/v1/display/uid/9'')],
      heap = [clockPlugin, weatherPlugin],
      enabled = [],
      nextAddr = 2,
      newOk = [],
      randomDraws = [],
      fsOk = True,
      settings_isOpen = False,
      settings_opens = 0,
      settings_closes = 0,
      pluginInstallation = [],
      logs = [(LOGLEVEL_INFO, PluginRegistered ''Clock''),
              (LOGLEVEL_INFO, PluginRegistered ''Weather'')]\<rparr>"
  by (simp add: liveWorld_def liveScenario_def clockPlugin_def weatherPlugin_def eval_defs
        getRestApiBaseUri_def RestApi_BASE_URI_def decimal.simps char_of_def bit_0)

theorem uninstall_all_or_nothing_witness:
  "\<lparr>addr = 5, madeBy = 1, getName = ''Clock'', getUID = 3\<rparr> \<notin> set (elems (m_plugins liveWorld)) \<and>
   \<not> fst (uninstall (Some \<lparr>addr = 5, madeBy = 1, getName = ''Clock'', getUID = 3\<rparr>) liveWorld) \<and>
   clockPlugin \<in> set (elems (m_plugins liveWorld)) \<and>
   fst (DisplayMgr_uninstallPlugin clockPlugin (m_slots liveWorld)) \<and>
   fst (uninstall (Some clockPlugin) liveWorld) \<and>
   elems (m_plugins (snd (uninstall (Some clockPlugin) liveWorld))) = [weatherPlugin] \<and>
   webInterfaces (snd (uninstall (Some clockPlugin) liveWorld)) =
     [(weatherPlugin, ''/rest/api/v1/display/uid/9'')] \<and>
   m_slots (snd (uninstall (Some clockPlugin) liveWorld)) = [None, Some weatherPlugin, None, None] \<and>
   clockPlugin \<in> set (elems (m_plugins (liveWorld\<lparr>m_slots := [None, Some weatherPlugin, None, None]\<rparr>))) \<and>
   \<not> fst (DisplayMgr_uninstallPlugin clockPlugin
           (m_slots (liveWorld\<lparr>m_slots := [None, Some weatherPlugin, None, None]\<rparr>))) \<and>
   \<not> fst (uninstall (Some clockPlugin)
           (liveWorld\<lparr>m_slots := [None, Some weatherPlugin, None, None]\<rparr>)) \<and>
   elems (m_plugins (snd (uninstall (Some clockPlugin)
           (liveWorld\<lparr>m_slots := [None, Some weatherPlugin, None, None]\<rparr>)))) =
     [clockPlugin, weatherPlugin]"
  using uninstall_all_or_nothing
          [of liveWorld "\<lparr>addr = 5, madeBy = 1, getName = ''Clock'', getUID = 3\<rparr>"]
        uninstall_all_or_nothing [of liveWorld clockPlugin]
        uninstall_all_or_nothing
          [of "liveWorld\<lparr>m_slots := [None, Some weatherPlugin, None, None]\<rparr>" clockPlugin]
  by (simp add: liveWorld_eval DisplayMgr_uninstallPlugin_def LOG_def
        clockPlugin_def weatherPlugin_def)

theorem failed_install_leaves_nothing_witness:
  "fresh_addrs liveWorld \<and>
   m_slots liveWorld ! unat (0 :: uint8_t) = Some clockPlugin \<and>
   fst (install_uid ''Weather'' 11 0 liveWorld) = None \<and>
   heap (snd (install_uid ''Weather'' 11 0 liveWorld)) = [clockPlugin, weatherPlugin] \<and>
   m_slots (snd (install_uid ''Weather'' 11 0 liveWorld)) =
     [Some clockPlugin, Some weatherPlugin, None, None] \<and>
   nextAddr (snd (install_uid ''Weather'' 11 0 liveWorld)) = 3 \<and>
   \<not> unat (9 :: uint8_t) < length (m_slots liveWorld) \<and>
   fst (install_uid ''Weather'' 11 9 liveWorld) = None \<and>
   m_slots (snd (install_uid ''Weather'' 11 9 liveWorld)) =
     [Some clockPlugin, Some weatherPlugin, None, None] \<and>
   \<not> nextAllocsOk 2 (liveWorld\<lparr>newOk := [True, False]\<rparr>) \<and>
   fst (install_uid ''Clock'' 11 SLOT_ID_INVALID (liveWorld\<lparr>newOk := [True, False]\<rparr>)) = None \<and>
   heap (snd (install_uid ''Clock'' 11 SLOT_ID_INVALID (liveWorld\<lparr>newOk := [True, False]\<rparr>))) =
     [clockPlugin, weatherPlugin] \<and>
   m_slots (snd (install_uid ''Clock'' 11 SLOT_ID_INVALID (liveWorld\<lparr>newOk := [True, False]\<rparr>))) =
     [Some clockPlugin, Some weatherPlugin, None, None] \<and>
   firstFree (m_slots (liveWorld\<lparr>m_slots := [Some clockPlugin, Some weatherPlugin]\<rparr>)) = None \<and>
   fst (install_uid ''Clock'' 11 SLOT_ID_INVALID
          (liveWorld\<lparr>m_slots := [Some clockPlugin, Some weatherPlugin]\<rparr>)) = None \<and>
   heap (snd (install_uid ''Clock'' 11 SLOT_ID_INVALID
          (liveWorld\<lparr>m_slots := [Some clockPlugin, Some weatherPlugin]\<rparr>))) =
     [clockPlugin, weatherPlugin] \<and>
   m_plugins (snd (install_uid ''Clock'' 11 SLOT_ID_INVALID
          (liveWorld\<lparr>m_slots := [Some clockPlugin, Some weatherPlugin]\<rparr>))) =
     m_plugins liveWorld \<and>
   fst (install_uid ''Clock'' 11 2 liveWorld) \<noteq> None"
proof -
  let ?A = "liveWorld\<lparr>newOk := [True, False]\<rparr>"
  let ?F = "liveWorld\<lparr>m_slots := [Some clockPlugin, Some weatherPlugin]\<rparr>"
  have f: "fresh_addrs liveWorld" "fresh_addrs ?A" "fresh_addrs ?F"
    by (simp_all add: liveWorld_eval fresh_addrs_def clockPlugin_def weatherPlugin_def)
  have h: "heap liveWorld = [clockPlugin, weatherPlugin]"
    "m_slots liveWorld = [Some clockPlugin, Some weatherPlugin, None, None]"
    "nextAddr liveWorld = 2"
    "map name (elems (m_registry liveWorld)) = [''Clock'', ''Weather'']"
    "newOk liveWorld = []"
    by (simp_all add: liveWorld_eval)
  have n: "nextAllocsOk 1 liveWorld" "nextAllocsOk 2 liveWorld" "\<not> nextAllocsOk 2 ?A"
    by (simp_all add: nextAllocsOk_def h)
  have i: "SLOT_ID_INVALID \<noteq> (0 :: uint8_t)" "SLOT_ID_INVALID \<noteq> (9 :: uint8_t)"
    "SLOT_ID_INVALID \<noteq> (2 :: uint8_t)"
    by (simp_all add: SLOT_ID_INVALID_def)
  show ?thesis
    using failed_install_leaves_nothing [OF f(1), of "''Weather''" 11 0]
      failed_install_leaves_nothing [OF f(1), of "''Weather''" 11 9]
      failed_install_leaves_nothing [OF f(2), of "''Clock''" 11 SLOT_ID_INVALID]
      failed_install_leaves_nothing [OF f(3), of "''Clock''" 11 SLOT_ID_INVALID]
      failed_install_leaves_nothing [OF f(1), of "''Clock''" 11 2]
      f h n i
    by simp
qed

subsection \<open>Unique ids\<close>

lemma generateUID_while_None: "generateUID_while uid isFound None l = (isFound, l)"
  by (simp add: generateUID_while.simps)

lemma generateUID_while_True: "generateUID_while uid True plugin l = (True, l)"
  by (simp add: generateUID_while.simps split: option.splits)

lemma generateUID_while_hit:
  "uid = getUID p \<Longrightarrow> generateUID_while uid False (Some p) l = (True, l)"
  by (subst generateUID_while.simps) (simp add: generateUID_while_True)

lemma generateUID_while_miss:
  "uid \<noteq> getUID p \<Longrightarrow>
     generateUID_while uid False (Some p) l =
       (case LinkedList_next l of
          (False, l') \<Rightarrow> (False, l')
        | (True, l') \<Rightarrow> generateUID_while uid False (LinkedList_current l') l')"
  by (subst generateUID_while.simps) (simp add: generateUID_while_None split: prod.splits bool.splits)

lemma generateUID_while_searches:
  "curr l < length (elems l) \<Longrightarrow>
   generateUID_while uid False (Some (elems l ! curr l)) l = (isFound, l') \<Longrightarrow>
   isFound = (uid \<in> set (map getUID (drop (curr l) (elems l)))) \<and> elems l' = elems l"
proof (induction "length (elems l) - curr l" arbitrary: l)
  case 0
  then show ?case by simp
next
  case (Suc n)
  let ?p = "elems l ! curr l"
  have dr: "drop (curr l) (elems l) = ?p # drop (Suc (curr l)) (elems l)"
    using Suc.prems(1) by (simp add: Cons_nth_drop_Suc)
  show ?case
  proof (cases "uid = getUID ?p")
    case True
    then have "generateUID_while uid False (Some ?p) l = (True, l)"
      by (rule generateUID_while_hit)
    then have "(isFound, l') = (True, l)"
      by (rule trans [OF Suc.prems(2) [symmetric]])
    then have "isFound" "l' = l"
      by simp_all
    then show ?thesis
      using True by (simp add: dr)
  next
    case False
    show ?thesis
    proof (cases "Suc (curr l) < length (elems l)")
      case last: False
      with False have "generateUID_while uid False (Some ?p) l = (False, l)"
        by (simp add: generateUID_while_miss LinkedList_next_def)
      then have "(isFound, l') = (False, l)"
        by (rule trans [OF Suc.prems(2) [symmetric]])
      then have "\<not> isFound" "l' = l"
        by simp_all
      then show ?thesis
        using False last by (simp add: dr)
    next
      case more: True
      let ?l = "l\<lparr>curr := Suc (curr l)\<rparr>"
      have step: "generateUID_while uid False (Some (elems ?l ! curr ?l)) ?l = (isFound, l')"
        using Suc.prems(2) False more
        by (simp add: generateUID_while_miss LinkedList_next_def LinkedList_current_def)
      have "n = length (elems ?l) - curr ?l"
        using Suc.hyps(2) by simp
      from Suc.hyps(1) [OF this _ step] more False show ?thesis
        by (simp add: dr)
    qed
  qed
qed

lemma generateUID_check:
  assumes "(case LinkedList_selectFirstElement l of
              (True, l1) \<Rightarrow> generateUID_while uid False (LinkedList_current l1) l1
            | (False, l1) \<Rightarrow> (False, l1)) = (isFound, l')"
  shows "isFound = (uid \<in> set (map getUID (elems l))) \<and> elems l' = elems l"
proof (cases "elems l = []")
  case True
  with assms show ?thesis
    by (auto simp: LinkedList_selectFirstElement_def)
next
  case False
  let ?l = "l\<lparr>curr := 0\<rparr>"
  have "generateUID_while uid False (Some (elems ?l ! curr ?l)) ?l = (isFound, l')"
    using assms False by (simp add: LinkedList_selectFirstElement_def LinkedList_current_def)
  from generateUID_while_searches [OF _ this] False show ?thesis
    by simp
qed

lemma generateUID_do_Some:
  "generateUID_do rs l = Some (uid, rs', l') \<Longrightarrow>
     uid \<notin> set (map getUID (elems l)) \<and> elems l' = elems l \<and>
     (\<exists>used. rs = used @ uid # rs' \<and> set used \<subseteq> set (map getUID (elems l)))"
proof (induction rs arbitrary: l)
  case Nil
  then show ?case by simp
next
  case (Cons r rs)
  obtain isFound l1 where
    chk: "(case LinkedList_selectFirstElement l of
             (True, l1) \<Rightarrow> generateUID_while r False (LinkedList_current l1) l1
           | (False, l1) \<Rightarrow> (False, l1)) = (isFound, l1)"
    by (cases "case LinkedList_selectFirstElement l of
                 (True, l1) \<Rightarrow> generateUID_while r False (LinkedList_current l1) l1
               | (False, l1) \<Rightarrow> (False, l1)")
  note c = generateUID_check [OF chk]
  show ?case
  proof (cases isFound)
    case True
    with Cons.prems chk have "generateUID_do rs l1 = Some (uid, rs', l')"
      by (simp add: Let_def)
    from Cons.IH [OF this] obtain used where
      u: "uid \<notin> set (map getUID (elems l1))" "elems l' = elems l1"
         "rs = used @ uid # rs'" "set used \<subseteq> set (map getUID (elems l1))"
      by blast
    have "r # rs = (r # used) @ uid # rs'" "set (r # used) \<subseteq> set (map getUID (elems l))"
      using u c True by auto
    with u c show ?thesis
      by (metis (no_types))
  next
    case False
    with Cons.prems chk have "uid = r" "rs' = rs" "l' = l1"
      by (simp_all add: Let_def)
    with c False have "uid \<notin> set (map getUID (elems l))" "elems l' = elems l"
      "r # rs = [] @ uid # rs'" "set [] \<subseteq> set (map getUID (elems l))"
      by simp_all
    then show ?thesis
      by (metis (no_types))
  qed
qed

lemma generateUID_do_returns:
  "\<exists>r \<in> set rs. r \<notin> set (map getUID (elems l)) \<Longrightarrow> generateUID_do rs l \<noteq> None"
proof (induction rs arbitrary: l)
  case Nil
  then show ?case by simp
next
  case (Cons r rs)
  obtain isFound l1 where
    chk: "(case LinkedList_selectFirstElement l of
             (True, l1) \<Rightarrow> generateUID_while r False (LinkedList_current l1) l1
           | (False, l1) \<Rightarrow> (False, l1)) = (isFound, l1)"
    by (cases "case LinkedList_selectFirstElement l of
                 (True, l1) \<Rightarrow> generateUID_while r False (LinkedList_current l1) l1
               | (False, l1) \<Rightarrow> (False, l1)")
  note c = generateUID_check [OF chk]
  show ?case
  proof (cases isFound)
    case True
    with c Cons.prems have "\<exists>r \<in> set rs. r \<notin> set (map getUID (elems l1))"
      by auto
    from Cons.IH [OF this] True chk show ?thesis
      by (simp add: Let_def)
  next
    case False
    with chk show ?thesis
      by (simp add: Let_def)
  qed
qed

lemma generateUID_fresh:
  assumes "generateUID s = Some (uid, s1)"
  shows "uid \<notin> set (uids s)" and "uids s1 = uids s"
proof -
  from assms obtain rs l where
    d: "generateUID_do (randomDraws s) (m_plugins s) = Some (uid, rs, l)"
    and s1: "s1 = s\<lparr>randomDraws := rs, m_plugins := l\<rparr>"
    by (auto simp: generateUID_def split: option.splits)
  from generateUID_do_Some [OF d] show "uid \<notin> set (uids s)" "uids s1 = uids s"
    by (simp_all add: uids_def s1)
qed

lemma generateUID_returns:
  "\<exists>r \<in> set (randomDraws s). r \<notin> set (uids s) \<Longrightarrow> generateUID s \<noteq> None"
  using generateUID_do_returns [of "randomDraws s" "m_plugins s"]
  by (auto simp: generateUID_def uids_def split: option.splits)

lemma installToSlot_plugins:
  assumes "installToSlot plugin slotId s = (ok, s')"
  shows "elems (m_plugins s') =
           elems (m_plugins s) @ (case plugin of Some p \<Rightarrow> if ok then [p] else [] | None \<Rightarrow> [])"
    and "plugin = None \<longrightarrow> \<not> ok"
proof -
  show "plugin = None \<longrightarrow> \<not> ok"
    using assms by (auto simp: installToSlot_def)
  show "elems (m_plugins s') =
          elems (m_plugins s) @ (case plugin of Some p \<Rightarrow> if ok then [p] else [] | None \<Rightarrow> [])"
  proof (cases plugin)
    case None
    with assms show ?thesis by (auto simp: installToSlot_def)
  next
    case (Some p)
    obtain placed slots where dm: "DisplayMgr_installPlugin p slotId (m_slots s) = (placed, slots)"
      by (cases "DisplayMgr_installPlugin p slotId (m_slots s)")
    obtain nodeOk s2 where n: "operator_new (s\<lparr>m_slots := slots\<rparr>) = (nodeOk, s2)"
      by (cases "operator_new (s\<lparr>m_slots := slots\<rparr>)")
    have "m_plugins s2 = m_plugins s"
      using installed_of_operator_new [OF n] by (simp add: installed_of_def)
    with assms show ?thesis
      by (cases nodeOk)
         (auto simp: installToSlot_def Some dm n Let_def LOG_def LinkedList_append_def
            registerWebInterface_def split: if_splits)
  qed
qed

lemma installToAutoSlot_plugins:
  assumes "installToAutoSlot plugin s = (ok, s')"
  shows "elems (m_plugins s') =
           elems (m_plugins s) @ (case plugin of Some p \<Rightarrow> if ok then [p] else [] | None \<Rightarrow> [])"
    and "plugin = None \<longrightarrow> \<not> ok"
proof -
  show "plugin = None \<longrightarrow> \<not> ok"
    using assms by (auto simp: installToAutoSlot_def)
  show "elems (m_plugins s') =
          elems (m_plugins s) @ (case plugin of Some p \<Rightarrow> if ok then [p] else [] | None \<Rightarrow> [])"
  proof (cases plugin)
    case None
    with assms show ?thesis by (auto simp: installToAutoSlot_def)
  next
    case (Some p)
    obtain placed slots where dm: "DisplayMgr_installPlugin_auto p (m_slots s) = (placed, slots)"
      by (cases "DisplayMgr_installPlugin_auto p (m_slots s)")
    obtain nodeOk s2 where n: "operator_new (s\<lparr>m_slots := slots\<rparr>) = (nodeOk, s2)"
      by (cases "operator_new (s\<lparr>m_slots := slots\<rparr>)")
    have "m_plugins s2 = m_plugins s"
      using installed_of_operator_new [OF n] by (simp add: installed_of_def)
    with assms show ?thesis
      by (cases nodeOk)
         (auto simp: installToAutoSlot_def Some dm n Let_def LOG_def LinkedList_append_def
            registerWebInterface_def split: if_splits)
  qed
qed

lemma install_uid_plugins:
  assumes "install_uid nm uid slotId s = (plugin, s')"
  shows "case plugin of
           None \<Rightarrow> elems (m_plugins s') = elems (m_plugins s)
         | Some p \<Rightarrow> elems (m_plugins s') = elems (m_plugins s) @ [p] \<and> getUID p = uid"
proof (cases "elems (m_registry s) = []")
  case True
  with assms show ?thesis
    by (auto simp: install_uid_def LinkedList_selectFirstElement_def)
next
  case False
  let ?reg = "(m_registry s)\<lparr>curr := 0\<rparr>"
  obtain isFound entry reg' where
    w: "install_while nm False (LinkedList_current ?reg) ?reg = (isFound, entry, reg')"
    by (cases "install_while nm False (LinkedList_current ?reg) ?reg")
  let ?s1 = "s\<lparr>m_registry := reg'\<rparr>"
  show ?thesis
  proof (cases "isFound \<and> entry \<noteq> None")
    case nf: False
    with assms False show ?thesis
      by (auto simp: install_uid_def LinkedList_selectFirstElement_def w Let_def
            split: option.splits)
  next
    case True
    then obtain e where e: "entry = Some e" and found: "isFound"
      by auto
    obtain created s2 where c: "createPlugin (createFunc e) (name e) uid ?s1 = (created, s2)"
      by (cases "createPlugin (createFunc e) (name e) uid ?s1")
    note ce = createPlugin_effect [OF c]
    have mp: "m_plugins s2 = m_plugins s"
      using ce by simp
    have cu: "created = Some p \<Longrightarrow> getUID p = uid" for p
      using ce by simp
    have del: "m_plugins (operator_delete created s3) = m_plugins s3" for s3 :: "'a world"
      by (simp add: operator_delete_def split: option.splits)
    show ?thesis
    proof (cases "SLOT_ID_INVALID = slotId")
      case auto: True
      obtain ok s3 where a: "installToAutoSlot created s2 = (ok, s3)"
        by (cases "installToAutoSlot created s2")
      note ip = installToAutoSlot_plugins [OF a]
      show ?thesis
      proof (cases ok)
        case True
        with ip(2) obtain p where p: "created = Some p"
          by (cases created) auto
        from assms False have "plugin = created" "s' = s3"
          by (simp_all add: install_uid_def LinkedList_selectFirstElement_def w e found c auto a
                True)
        with ip(1) p True mp cu show ?thesis
          by simp
      next
        case nok: False
        from assms False have "plugin = None" "s' = operator_delete created s3"
          by (simp_all add: install_uid_def LinkedList_selectFirstElement_def w e found c auto a
                nok)
        with ip(1) nok mp del show ?thesis
          by (simp split: option.splits)
      qed
    next
      case explicit: False
      obtain ok s3 where a: "installToSlot created slotId s2 = (ok, s3)"
        by (cases "installToSlot created slotId s2")
      note ip = installToSlot_plugins [OF a]
      show ?thesis
      proof (cases ok)
        case True
        with ip(2) obtain p where p: "created = Some p"
          by (cases created) auto
        from assms False have "plugin = created" "s' = s3"
          by (simp_all add: install_uid_def LinkedList_selectFirstElement_def w e found c
                explicit a True)
        with ip(1) p True mp cu show ?thesis
          by simp
      next
        case nok: False
        from assms False have "plugin = None" "s' = operator_delete created s3"
          by (simp_all add: install_uid_def LinkedList_selectFirstElement_def w e found c
                explicit a nok)
        with ip(1) nok mp del show ?thesis
          by (simp split: option.splits)
      qed
    qed
  qed
qed

lemma install_uids:
  assumes "install nm slotId s = Some (plugin, s')"
  shows "case plugin of
           None \<Rightarrow> uids s' = uids s
         | Some p \<Rightarrow> (\<exists>s1. generateUID s = Some (getUID p, s1)) \<and>
                     getUID p \<notin> set (uids s) \<and> uids s' = uids s @ [getUID p]"
proof -
  from assms obtain uid s1 where
    g: "generateUID s = Some (uid, s1)" and i: "install_uid nm uid slotId s1 = (plugin, s')"
    by (auto simp: install_def split: option.splits)
  note f = generateUID_fresh [OF g]
  from install_uid_plugins [OF i] f g show ?thesis
    by (cases plugin) (auto simp: uids_def)
qed

lemma install_distinct:
  assumes "distinct (uids s)" and "install nm slotId s = Some (plugin, s')"
  shows "distinct (uids s')"
  using install_uids [OF assms(2)] assms(1)
  by (cases plugin) auto

lemma install_all_distinct:
  "distinct (uids s) \<Longrightarrow> install_all reqs s = Some s' \<Longrightarrow> distinct (uids s')"
proof (induction reqs arbitrary: s)
  case Nil
  then show ?case by simp
next
  case (Cons req reqs)
  obtain nm slotId where req: "req = (nm, slotId)"
    by (cases req)
  from Cons.prems(2) obtain plugin s1 where
    i: "install nm slotId s = Some (plugin, s1)" and rest: "install_all reqs s1 = Some s'"
    by (auto simp: req split: option.splits)
  from install_distinct [OF Cons.prems(1) i] have "distinct (uids s1)" .
  from Cons.IH [OF this rest] show ?case .
qed

text \<open>
  C6: no two installed plugins share a uid when plugins are installed through
  \<^verbatim>\<open>install(name, slotId)\<close>. What \<^verbatim>\<open>generateUID\<close> returns is the uid of no active plugin, and
  it leaves the active plugins alone; a plugin that \<^verbatim>\<open>install\<close> returns carries such a uid
  and is appended to the active plugins; so any sequence of installs keeps the uids
  distinct. \<^verbatim>\<open>generateUID\<close> returns as soon as the random source draws a free value.
\<close>

theorem uids_stay_distinct:
  "(generateUID s = Some (uid, s1) \<longrightarrow> uid \<notin> set (uids s) \<and> uids s1 = uids s) \<and>
   (install nm slotId s = Some (Some p, s') \<longrightarrow>
      (\<exists>s1. generateUID s = Some (getUID p, s1)) \<and>
      getUID p \<notin> set (uids s) \<and> uids s' = uids s @ [getUID p]) \<and>
   (distinct (uids s) \<and> install_all reqs s = Some s'' \<longrightarrow> distinct (uids s'')) \<and>
   ((\<exists>r \<in> set (randomDraws s). r \<notin> set (uids s)) \<longrightarrow> generateUID s \<noteq> None)"
proof (intro conjI impI)
  assume "generateUID s = Some (uid, s1)"
  then show "uid \<notin> set (uids s)" and "uids s1 = uids s"
    by (rule generateUID_fresh)+
next
  assume "install nm slotId s = Some (Some p, s')"
  from install_uids [OF this]
  show "\<exists>s1. generateUID s = Some (getUID p, s1)"
    and "getUID p \<notin> set (uids s)" and "uids s' = uids s @ [getUID p]"
    by simp_all
next
  assume "distinct (uids s) \<and> install_all reqs s = Some s''"
  then show "distinct (uids s'')"
    using install_all_distinct by blast
next
  assume "\<exists>r \<in> set (randomDraws s). r \<notin> set (uids s)"
  then show "generateUID s \<noteq> None"
    by (rule generateUID_returns)
qed

theorem uids_stay_distinct_witness:
  "generateUID (liveWorld\<lparr>randomDraws := [7, 9, 12]\<rparr>) =
     Some (12, liveWorld\<lparr>randomDraws := [], m_plugins := (m_plugins liveWorld)\<lparr>curr := 1\<rparr>\<rparr>) \<and>
   uids (liveWorld\<lparr>randomDraws := [7, 9, 12]\<rparr>) = [7, 9] \<and>
   12 \<notin> set (uids (liveWorld\<lparr>randomDraws := [7, 9, 12]\<rparr>)) \<and>
   distinct (uids (liveWorld\<lparr>randomDraws := [7, 9, 12, 12, 9, 40]\<rparr>)) \<and>
   map_option (\<lambda>(plugin, s). (map_option getUID plugin, uids s))
     (install ''Clock'' SLOT_ID_INVALID (liveWorld\<lparr>randomDraws := [7, 9, 12]\<rparr>)) =
     Some (Some 12, [7, 9, 12]) \<and>
   map_option uids
     (install_all [(''Clock'', SLOT_ID_INVALID), (''Weather'', 3)]
        (liveWorld\<lparr>randomDraws := [7, 9, 12, 12, 9, 40]\<rparr>)) = Some [7, 9, 12, 40]"
proof -
  let ?W = "liveWorld\<lparr>randomDraws := [7, 9, 12]\<rparr>"
  let ?V = "liveWorld\<lparr>randomDraws := [7, 9, 12, 12, 9, 40]\<rparr>"
  have g: "generateUID ?W =
             Some (12, liveWorld\<lparr>randomDraws := [], m_plugins := (m_plugins liveWorld)\<lparr>curr := 1\<rparr>\<rparr>)"
    by (simp add: liveWorld_eval eval_defs clockPlugin_def weatherPlugin_def)
  have u: "uids ?W = [7, 9]" "uids ?V = [7, 9]"
    by (simp_all add: liveWorld_eval uids_def clockPlugin_def weatherPlugin_def)
  obtain p s' where i: "install ''Clock'' SLOT_ID_INVALID ?W = Some (Some p, s')"
    by (simp add: liveWorld_eval eval_defs clockPlugin_def weatherPlugin_def)
  obtain s'' where a: "install_all [(''Clock'', SLOT_ID_INVALID), (''Weather'', 3)] ?V = Some s''"
    and us: "uids s'' = [7, 9, 12, 40]"
    by (simp add: liveWorld_eval eval_defs clockPlugin_def weatherPlugin_def uids_def)
  have p12: "getUID p = 12"
    using i by (auto simp: liveWorld_eval eval_defs clockPlugin_def weatherPlugin_def)
  show ?thesis
    using uids_stay_distinct [of ?W 12 _ "''Clock''" SLOT_ID_INVALID p s' "[]" ?W]
          uids_stay_distinct [of ?V 12 ?V "''Clock''" 0 p ?V
             "[(''Clock'', SLOT_ID_INVALID), (''Weather'', 3)]" s'']
          g u i a us p12
    by simp
qed

subsection \<open>Fresh addresses are kept by every operation\<close>

lemma fresh_addrs_cong:
  "heap s' = heap s \<Longrightarrow> m_slots s' = m_slots s \<Longrightarrow> nextAddr s' = nextAddr s \<Longrightarrow>
     fresh_addrs s' = fresh_addrs s"
  by (simp add: fresh_addrs_def)

lemma fresh_addrs_boot: "n \<le> 255 \<Longrightarrow> fresh_addrs (boot n v)"
  by (simp add: fresh_addrs_def boot_def list_all_iff)

lemma fresh_addrs_registerPlugin: "fresh_addrs (registerPlugin nm cf s) = fresh_addrs s"
proof -
  obtain ok s1 where n1: "operator_new s = (ok, s1)"
    by (cases "operator_new s")
  obtain nodeOk s2 where n2: "operator_new s1 = (nodeOk, s2)"
    by (cases "operator_new s1")
  have 1: "heap s1 = heap s" "m_slots s1 = m_slots s" "nextAddr s1 = nextAddr s"
    using installed_of_operator_new [OF n1] by (simp_all add: installed_of_def)
  have 2: "heap s2 = heap s1" "m_slots s2 = m_slots s1" "nextAddr s2 = nextAddr s1"
    using installed_of_operator_new [OF n2] by (simp_all add: installed_of_def)
  show ?thesis
    by (rule fresh_addrs_cong)
       (cases ok; cases nodeOk;
        simp add: registerPlugin_def n1 n2 Let_def LOG_def LinkedList_append_def 1 2)+
qed

lemma fresh_addrs_slot_update:
  assumes "fresh_addrs s" and "handedOut (nextAddr s) q"
    and "heap s' = heap s" and "nextAddr s' = nextAddr s"
    and "m_slots s' = (m_slots s)[i := q]"
  shows "fresh_addrs s'"
proof -
  have "\<forall>x \<in> set ((m_slots s)[i := q]). handedOut (nextAddr s) x"
  proof
    fix x
    assume "x \<in> set ((m_slots s)[i := q])"
    then have "x = q \<or> x \<in> set (m_slots s)"
      using set_update_subset_insert [of "m_slots s" i q] by auto
    with assms(1,2) show "handedOut (nextAddr s) x"
      by (auto simp: fresh_addrs_def list_all_iff)
  qed
  with assms show ?thesis
    by (simp add: fresh_addrs_def list_all_iff)
qed

lemma DisplayMgr_uninstallPlugin_update:
  "\<exists>i. snd (DisplayMgr_uninstallPlugin p slots) = slots[i := None] \<or>
       snd (DisplayMgr_uninstallPlugin p slots) = slots"
  by (cases "indexOf (Some p) slots") (auto simp: DisplayMgr_uninstallPlugin_def)

lemma DisplayMgr_installPlugin_update:
  "snd (DisplayMgr_installPlugin p slotId slots) = slots \<or>
   snd (DisplayMgr_installPlugin p slotId slots) = slots[unat slotId := Some p]"
  by (simp add: DisplayMgr_installPlugin_def)

lemma DisplayMgr_installPlugin_auto_update:
  "snd (DisplayMgr_installPlugin_auto p slots) = slots \<or>
   (\<exists>i. snd (DisplayMgr_installPlugin_auto p slots) = slots[i := Some p])"
  by (auto simp: DisplayMgr_installPlugin_auto_def split: option.splits)

lemma fresh_addrs_release:
  assumes "fresh_addrs s" and "heap s' = heap s" and "nextAddr s' = nextAddr s"
    and "m_slots s' = snd (DisplayMgr_uninstallPlugin p (m_slots s))"
  shows "fresh_addrs s'"
proof -
  from DisplayMgr_uninstallPlugin_update [of p "m_slots s"] obtain i where
    "m_slots s' = (m_slots s)[i := None] \<or> m_slots s' = m_slots s"
    using assms(4) by auto
  then show ?thesis
  proof
    assume u: "m_slots s' = (m_slots s)[i := None]"
    show ?thesis
      by (rule fresh_addrs_slot_update [OF assms(1) _ assms(2,3) u]) simp
  next
    assume "m_slots s' = m_slots s"
    with assms show ?thesis
      using fresh_addrs_cong [of s' s] by simp
  qed
qed

lemma fresh_addrs_placed:
  assumes "fresh_addrs s" and "addr p < nextAddr s"
    and "slots = m_slots s \<or> (\<exists>i. slots = (m_slots s)[i := Some p])"
  shows "fresh_addrs (s\<lparr>m_slots := slots\<rparr>)"
  using assms(3)
proof
  assume "slots = m_slots s"
  with assms(1) show ?thesis
    by (simp add: fresh_addrs_def)
next
  assume "\<exists>i. slots = (m_slots s)[i := Some p]"
  then obtain i where u: "slots = (m_slots s)[i := Some p]" ..
  show ?thesis
    by (rule fresh_addrs_slot_update [OF assms(1), of "Some p" _ i]) (simp_all add: assms(2) u)
qed

lemma fresh_addrs_after_placing:
  assumes f: "fresh_addrs (s\<lparr>m_slots := slots\<rparr>)"
  shows "fresh_addrs
           (snd (case operator_new (s\<lparr>m_slots := slots\<rparr>) of
                   (nodeOk, s2) \<Rightarrow>
                     (case LinkedList_append nodeOk (m_plugins s2) p of
                        (False, l) \<Rightarrow>
                          (let s3 = LOG LOGLEVEL_ERROR (CouldntAppendPlugin (getName p))
                                      (s2\<lparr>m_plugins := l\<rparr>)
                           in (False, s3\<lparr>m_slots :=
                                        snd (DisplayMgr_uninstallPlugin p (m_slots s3))\<rparr>))
                      | (True, l) \<Rightarrow>
                          (let baseUri = getRestApiBaseUri (getUID p)
                           in (True, registerWebInterface p baseUri
                                       (s2\<lparr>m_plugins := l\<rparr>))))))"
proof -
  obtain nodeOk s2 where n: "operator_new (s\<lparr>m_slots := slots\<rparr>) = (nodeOk, s2)"
    by (cases "operator_new (s\<lparr>m_slots := slots\<rparr>)")
  have 2: "heap s2 = heap s" "m_slots s2 = slots" "nextAddr s2 = nextAddr s"
    using installed_of_operator_new [OF n] by (simp_all add: installed_of_def)
  have f2: "fresh_addrs s2"
    using f 2 by (simp add: fresh_addrs_def)
  show ?thesis
  proof (cases nodeOk)
    case True
    have "fresh_addrs (registerWebInterface p uri (s2\<lparr>m_plugins := l\<rparr>))" for uri l
      using f2 by (simp add: fresh_addrs_def registerWebInterface_def)
    with True show ?thesis
      by (simp add: n LinkedList_append_def Let_def)
  next
    case False
    let ?s3 = "LOG LOGLEVEL_ERROR (CouldntAppendPlugin (getName p)) s2"
    have "fresh_addrs (?s3\<lparr>m_slots := snd (DisplayMgr_uninstallPlugin p (m_slots ?s3))\<rparr>)"
      by (rule fresh_addrs_release [OF f2]) (simp_all add: LOG_def)
    with False show ?thesis
      by (simp add: n LinkedList_append_def Let_def)
  qed
qed

lemma fresh_addrs_installToSlot:
  assumes "fresh_addrs s" and "handedOut (nextAddr s) plugin"
  shows "fresh_addrs (snd (installToSlot plugin slotId s))"
proof (cases plugin)
  case None
  with assms(1) show ?thesis by (simp add: installToSlot_def)
next
  case (Some p)
  obtain placed slots where dm: "DisplayMgr_installPlugin p slotId (m_slots s) = (placed, slots)"
    by (cases "DisplayMgr_installPlugin p slotId (m_slots s)")
  have "slots = m_slots s \<or> (\<exists>i. slots = (m_slots s)[i := Some p])"
    using DisplayMgr_installPlugin_update [of p slotId "m_slots s"] dm by auto
  with assms Some have f1: "fresh_addrs (s\<lparr>m_slots := slots\<rparr>)"
    using fresh_addrs_placed [of s p slots] by simp
  then have "fresh_addrs (LOG lvl msg (s\<lparr>m_slots := slots\<rparr>))" for lvl msg
    by (simp add: fresh_addrs_def LOG_def)
  with fresh_addrs_after_placing [OF f1, of p] show ?thesis
    by (simp add: installToSlot_def Some dm Let_def)
qed

lemma fresh_addrs_installToAutoSlot:
  assumes "fresh_addrs s" and "handedOut (nextAddr s) plugin"
  shows "fresh_addrs (snd (installToAutoSlot plugin s))"
proof (cases plugin)
  case None
  with assms(1) show ?thesis by (simp add: installToAutoSlot_def)
next
  case (Some p)
  obtain placed slots where dm: "DisplayMgr_installPlugin_auto p (m_slots s) = (placed, slots)"
    by (cases "DisplayMgr_installPlugin_auto p (m_slots s)")
  have "slots = m_slots s \<or> (\<exists>i. slots = (m_slots s)[i := Some p])"
    using DisplayMgr_installPlugin_auto_update [of p "m_slots s"] dm by auto
  with assms Some have f1: "fresh_addrs (s\<lparr>m_slots := slots\<rparr>)"
    using fresh_addrs_placed [of s p slots] by simp
  then have "fresh_addrs (LOG lvl msg (s\<lparr>m_slots := slots\<rparr>))" for lvl msg
    by (simp add: fresh_addrs_def LOG_def)
  with fresh_addrs_after_placing [OF f1, of p] show ?thesis
    by (simp add: installToAutoSlot_def Some dm Let_def)
qed

lemma handedOut_Suc: "handedOut n q \<Longrightarrow> handedOut (Suc n) q"
  by (cases q) simp_all

lemma fresh_addrs_createPlugin:
  assumes "fresh_addrs s" and "createPlugin cf nm uid s = (plugin, s1)"
  shows "fresh_addrs s1" and "handedOut (nextAddr s1) plugin"
proof -
  note ce = createPlugin_effect [OF assms(2)]
  show "handedOut (nextAddr s1) plugin"
    using ce by (cases plugin) simp_all
  show "fresh_addrs s1"
  proof (cases plugin)
    case None
    with ce assms(1) show ?thesis
      by (simp add: fresh_addrs_def)
  next
    case (Some p)
    with ce have h: "heap s1 = heap s @ [p]" "addr p = nextAddr s"
      "nextAddr s1 = Suc (nextAddr s)" "m_slots s1 = m_slots s"
      by simp_all
    have "\<forall>q \<in> set (heap s). addr q < Suc (nextAddr s)"
      using assms(1) by (auto simp: fresh_addrs_def list_all_iff)
    moreover have "\<forall>x \<in> set (m_slots s). handedOut (Suc (nextAddr s)) x"
      using assms(1) by (simp add: fresh_addrs_def list_all_iff handedOut_Suc)
    moreover have "length (m_slots s) \<le> 255"
      using assms(1) by (simp add: fresh_addrs_def)
    ultimately show ?thesis
      by (simp add: fresh_addrs_def list_all_iff h)
  qed
qed

lemma fresh_addrs_operator_delete:
  "fresh_addrs s \<Longrightarrow> fresh_addrs (operator_delete plugin s)"
  by (cases plugin) (auto simp: fresh_addrs_def operator_delete_def list_all_iff)

lemma fresh_addrs_install_uid:
  assumes "fresh_addrs s"
  shows "fresh_addrs (snd (install_uid nm uid slotId s))"
proof (cases "elems (m_registry s) = []")
  case True
  with assms show ?thesis
    by (simp add: install_uid_def LinkedList_selectFirstElement_def fresh_addrs_def)
next
  case False
  let ?reg = "(m_registry s)\<lparr>curr := 0\<rparr>"
  obtain isFound entry reg' where
    w: "install_while nm False (LinkedList_current ?reg) ?reg = (isFound, entry, reg')"
    by (cases "install_while nm False (LinkedList_current ?reg) ?reg")
  let ?s1 = "s\<lparr>m_registry := reg'\<rparr>"
  have f1: "fresh_addrs ?s1"
    using assms by (simp add: fresh_addrs_def)
  show ?thesis
  proof (cases "isFound \<and> entry \<noteq> None")
    case nf: False
    with f1 False show ?thesis
      by (auto simp: install_uid_def LinkedList_selectFirstElement_def w Let_def
            split: option.splits)
  next
    case True
    then obtain e where e: "entry = Some e" and found: "isFound"
      by auto
    obtain created s2 where c: "createPlugin (createFunc e) (name e) uid ?s1 = (created, s2)"
      by (cases "createPlugin (createFunc e) (name e) uid ?s1")
    note f2 = fresh_addrs_createPlugin [OF f1 c]
    have a: "fresh_addrs (snd (installToAutoSlot created s2))"
      using f2 by (rule fresh_addrs_installToAutoSlot)
    have b: "fresh_addrs (snd (installToSlot created slotId s2))"
      using f2 by (rule fresh_addrs_installToSlot)
    show ?thesis
    proof (cases "SLOT_ID_INVALID = slotId")
      case auto: True
      obtain ok s3 where i: "installToAutoSlot created s2 = (ok, s3)"
        by (cases "installToAutoSlot created s2")
      with a have "fresh_addrs s3" by simp
      then show ?thesis
        using False
        by (cases ok)
           (simp_all add: install_uid_def LinkedList_selectFirstElement_def w e found c auto i
              fresh_addrs_operator_delete)
    next
      case explicit: False
      obtain ok s3 where i: "installToSlot created slotId s2 = (ok, s3)"
        by (cases "installToSlot created slotId s2")
      with b have "fresh_addrs s3" by simp
      then show ?thesis
        using False
        by (cases ok)
           (simp_all add: install_uid_def LinkedList_selectFirstElement_def w e found c explicit i
              fresh_addrs_operator_delete)
    qed
  qed
qed

lemma fresh_addrs_install:
  assumes "fresh_addrs s" and "install nm slotId s = Some (plugin, s')"
  shows "fresh_addrs s'"
proof -
  from assms(2) obtain uid s1 where
    g: "generateUID s = Some (uid, s1)" and i: "install_uid nm uid slotId s1 = (plugin, s')"
    by (auto simp: install_def split: option.splits)
  from g have "fresh_addrs s1 = fresh_addrs s"
    by (intro fresh_addrs_cong) (auto simp: generateUID_def split: option.splits)
  with assms(1) fresh_addrs_install_uid [of s1 nm uid slotId] i show ?thesis
    by simp
qed

lemma fresh_addrs_uninstall:
  assumes "fresh_addrs s"
  shows "fresh_addrs (snd (uninstall plugin s))"
proof (cases plugin)
  case None
  with assms show ?thesis by (simp add: uninstall_def)
next
  case (Some p)
  show ?thesis
  proof (cases "indexOf p (elems (m_plugins s))")
    case None
    with assms show ?thesis
      by (simp add: uninstall_def Some LinkedList_find_def LOG_def fresh_addrs_def)
  next
    case (Some i)
    let ?s1 = "s\<lparr>m_plugins := (m_plugins s)\<lparr>curr := i\<rparr>\<rparr>"
    obtain status slots where dm: "DisplayMgr_uninstallPlugin p (m_slots s) = (status, slots)"
      by (cases "DisplayMgr_uninstallPlugin p (m_slots s)")
    have "fresh_addrs (snd (uninstall plugin s)) = fresh_addrs (s\<lparr>m_slots := slots\<rparr>)"
      by (rule fresh_addrs_cong)
         (cases status;
          simp add: uninstall_def \<open>plugin = Some p\<close> LinkedList_find_def Some dm Let_def
            unregisterWebInterface_def)+
    moreover have "fresh_addrs (s\<lparr>m_slots := slots\<rparr>)"
      by (rule fresh_addrs_release [OF assms, of _ p]) (simp_all add: dm)
    ultimately show ?thesis
      by simp
  qed
qed

lemma fresh_addrs_load_for:
  "fresh_addrs s \<Longrightarrow> fresh_addrs (load_for MAX_SLOTS jsonSlots slotId s)"
proof (induction jsonSlots arbitrary: slotId s)
  case Nil
  then show ?case by simp
next
  case (Cons jsonSlot rest)
  have step: "fresh_addrs
      (case install_uid nm uid slotId s of
         (None, s') \<Rightarrow> LOG LOGLEVEL_WARNING (CouldntInstallInSlot nm uid slotId) s'
       | (Some p, s') \<Rightarrow> enable p s')" for nm uid
    using fresh_addrs_install_uid [OF Cons.prems, of nm uid slotId]
    by (cases "install_uid nm uid slotId s")
       (auto simp: fresh_addrs_def LOG_def enable_def split: option.splits)
  show ?case
    using Cons.prems by (simp add: Let_def Cons.IH step)
qed

lemma fresh_addrs_load: "fresh_addrs s \<Longrightarrow> fresh_addrs (load J MAX_SLOTS s)"
proof -
  assume f: "fresh_addrs s"
  have o: "fresh_addrs s1" if "Settings_open True s = (ok, s1)" for ok s1
    using that f by (auto simp: Settings_open_def fresh_addrs_def split: if_splits)
  have c: "fresh_addrs (Settings_close s1)" if "fresh_addrs s1" for s1 :: "'a world"
    using that by (simp add: Settings_close_def fresh_addrs_def)
  have l: "fresh_addrs (LOG lvl msg s1)" if "fresh_addrs s1" for lvl msg and s1 :: "'a world"
    using that by (simp add: LOG_def fresh_addrs_def)
  obtain ok s1 where op: "Settings_open True s = (ok, s1)"
    by (cases "Settings_open True s")
  show ?thesis
    using o [OF op]
    by (cases ok) (auto simp: load_def op Let_def c l fresh_addrs_load_for split: option.splits)
qed

lemma fresh_addrs_save: "fresh_addrs (save J MAX_SLOTS s) = fresh_addrs s"
  by (rule fresh_addrs_cong)
     (simp_all add: save_def Settings_open_def Settings_close_def LOG_def Let_def)

lemma uids_boot: "uids (boot n v) = []"
  by (simp add: uids_def boot_def)

lemma uids_registerPlugin: "uids (registerPlugin nm cf s) = uids s"
proof -
  obtain ok s1 where n1: "operator_new s = (ok, s1)"
    by (cases "operator_new s")
  obtain nodeOk s2 where n2: "operator_new s1 = (nodeOk, s2)"
    by (cases "operator_new s1")
  have "m_plugins s1 = m_plugins s" "m_plugins s2 = m_plugins s1"
    using installed_of_operator_new [OF n1] installed_of_operator_new [OF n2]
    by (simp_all add: installed_of_def)
  then show ?thesis
    by (cases ok; cases nodeOk)
       (simp_all add: uids_def registerPlugin_def n1 n2 Let_def LOG_def LinkedList_append_def)
qed

subsection \<open>REST helpers\<close>

lemma sint_cond_always: "0 \<le> sint (w :: int32_t) \<or> (k::int) \<ge> sint w" if "0 \<le> k"
  using that by linarith

text \<open>
  C9: for every input string both \<^verbatim>\<open>toUInt8\<close> and \<^verbatim>\<open>toUInt16\<close> return false, although the
  output parameter has been assigned the (truncated) parsed value: the success flag starts
  as false and is never set.
\<close>

theorem toUInt_always_false:
  "toUInt8 toInt str v8 = (False, ucast (toInt str)) \<and>
   toUInt16 toInt str v16 = (False, ucast (toInt str))"
  by (simp add: toUInt8_def toUInt16_def UINT8_MAX_def UINT16_MAX_def sint_cond_always)

subsection \<open>Init state\<close>

text \<open>
  C7: in the Init state \<^verbatim>\<open>process()\<close> requests nothing while the button driver has no
  fresh reading; with a reading it requests the access point state when the button is
  pressed and the connecting state otherwise. The pending request is therefore always the
  old one, the access point state or the connecting state, and the active state is never
  changed by \<^verbatim>\<open>process()\<close> itself.
\<close>

theorem InitState_process_transitions:
  "(\<not> isUpdated btn \<longrightarrow> InitState_process btn sm = sm) \<and>
   (isUpdated btn \<and> getState btn = STATE_PRESSED \<longrightarrow>
      InitState_process btn sm = setState sm APState) \<and>
   (isUpdated btn \<and> getState btn \<noteq> STATE_PRESSED \<longrightarrow>
      InitState_process btn sm = setState sm ConnectingState) \<and>
   m_nextState (InitState_process btn sm) \<in>
      {m_nextState sm, Some APState, Some ConnectingState} \<and>
   m_currentState (InitState_process btn sm) = m_currentState sm"
  by (auto simp: InitState_process_def setState_def)

theorem InitState_process_transitions_witness:
  "InitState_process \<lparr>isUpdated = False, getState = STATE_PRESSED\<rparr>
      \<lparr>m_currentState = InitState, m_nextState = None\<rparr>
     = \<lparr>m_currentState = InitState, m_nextState = None\<rparr> \<and>
   InitState_process \<lparr>isUpdated = True, getState = STATE_PRESSED\<rparr>
      \<lparr>m_currentState = InitState, m_nextState = None\<rparr>
     = \<lparr>m_currentState = InitState, m_nextState = Some APState\<rparr> \<and>
   InitState_process \<lparr>isUpdated = True, getState = STATE_RELEASED\<rparr>
      \<lparr>m_currentState = InitState, m_nextState = None\<rparr>
     = \<lparr>m_currentState = InitState, m_nextState = Some ConnectingState\<rparr>"
  using InitState_process_transitions
          [of "\<lparr>isUpdated = False, getState = STATE_PRESSED\<rparr>"
              "\<lparr>m_currentState = InitState, m_nextState = None\<rparr>"]
        InitState_process_transitions
          [of "\<lparr>isUpdated = True, getState = STATE_PRESSED\<rparr>"
              "\<lparr>m_currentState = InitState, m_nextState = None\<rparr>"]
        InitState_process_transitions
          [of "\<lparr>isUpdated = True, getState = STATE_RELEASED\<rparr>"
              "\<lparr>m_currentState = InitState, m_nextState = None\<rparr>"]
  by (simp add: setState_def)

end
